theory Spec2Isabelle
  imports Complex_Main
begin

section \<open>Text, exceptions\<close>

text \<open>
  A Python \<open>str\<close> is a sequence of Unicode code points, so a text is a list of code
  points (numbers), not of bytes: the noise patterns of the validity filter name
  hiragana and katakana characters. \<open>ascii\<close> writes an ASCII literal as a text.
\<close>

type_synonym codepoint = nat
type_synonym str = "codepoint list"

definition ascii :: "string \<Rightarrow> str" where
  "ascii s = map of_char s"

text \<open>
  An exception value: its class, as far as an \<open>except\<close> clause of the program
  distinguishes it, and the message \<open>str(e)\<close>.
\<close>

datatype exc_class = ConnectionClosed | IndexError | RuntimeError | OtherException

datatype exc = Exc exc_class str

fun str_exc :: "exc \<Rightarrow> str" where
  "str_exc (Exc k m) = m"

subsection \<open>\<open>str.strip()\<close>, \<open>str.split()\<close>, indexing\<close>

text \<open>
  The code points for which \<open>str.isspace()\<close> holds; \<open>strip()\<close> and \<open>split()\<close>
  without arguments and the pattern \<open>\s\<close> on a \<open>str\<close> use this set.
\<close>

definition is_space :: "codepoint \<Rightarrow> bool" where
  "is_space c \<longleftrightarrow>
     (9 \<le> c \<and> c \<le> 13) \<or> (28 \<le> c \<and> c \<le> 32) \<or> c = 133 \<or> c = 160 \<or> c = 5760 \<or>
     (8192 \<le> c \<and> c \<le> 8202) \<or> c = 8232 \<or> c = 8233 \<or> c = 8239 \<or> c = 8287 \<or>
     c = 12288"

definition strip :: "str \<Rightarrow> str" where
  "strip t = rev (dropWhile is_space (rev (dropWhile is_space t)))"

text \<open>
  \<open>split_words t cur\<close> scans \<open>t\<close> with the word read so far in \<open>cur\<close>; runs of
  whitespace separate words and produce no empty word, as \<open>str.split()\<close> does.
\<close>

fun split_words :: "str \<Rightarrow> str \<Rightarrow> str list" where
  "split_words [] cur = (if cur = [] then [] else [cur])"
| "split_words (c # cs) cur =
     (if is_space c then (if cur = [] then split_words cs [] else cur # split_words cs [])
      else split_words cs (cur @ [c]))"

definition split :: "str \<Rightarrow> str list" where
  "split t = split_words t []"

text \<open>\<open>text[i]\<close> for \<open>i \<ge> 0\<close>: IndexError beyond the end.\<close>

definition char_at :: "str \<Rightarrow> nat \<Rightarrow> exc + codepoint" where
  "char_at t i =
     (if i < length t then Inr (t ! i)
      else Inl (Exc IndexError (ascii ''string index out of range'')))"

section \<open>Regular expressions of the noise patterns\<close>

text \<open>
  The patterns use literals, character classes, alternation, \<open>+\<close>, \<open>*\<close> and the anchors
  \<open>^\<close> and \<open>$\<close> only, so whether \<open>re.match\<close> finds a match is membership in a regular
  language, decided here by derivatives. An atom is the set of code points one pattern
  character accepts.
\<close>

datatype rex = Zero | Eps | Atom "codepoint \<Rightarrow> bool" | Alt rex rex | Seq rex rex | Star rex

fun nullable :: "rex \<Rightarrow> bool" where
  "nullable Zero = False"
| "nullable Eps = True"
| "nullable (Atom p) = False"
| "nullable (Alt r s) = (nullable r \<or> nullable s)"
| "nullable (Seq r s) = (nullable r \<and> nullable s)"
| "nullable (Star r) = True"

fun deriv :: "codepoint \<Rightarrow> rex \<Rightarrow> rex" where
  "deriv c Zero = Zero"
| "deriv c Eps = Zero"
| "deriv c (Atom p) = (if p c then Eps else Zero)"
| "deriv c (Alt r s) = Alt (deriv c r) (deriv c s)"
| "deriv c (Seq r s) =
     (if nullable r then Alt (Seq (deriv c r) s) (deriv c s) else Seq (deriv c r) s)"
| "deriv c (Star r) = Seq (deriv c r) (Star r)"

fun fullmatch :: "rex \<Rightarrow> str \<Rightarrow> bool" where
  "fullmatch r [] = nullable r"
| "fullmatch r (c # cs) = fullmatch (deriv c r) cs"

definition Plus :: "rex \<Rightarrow> rex" where
  "Plus r = Seq r (Star r)"

fun alts :: "rex list \<Rightarrow> rex" where
  "alts [] = Zero"
| "alts (r # rs) = Alt r (alts rs)"

text \<open>
  \<open>re.match(p, text)\<close> for a pattern \<open>^body$\<close>: the match starts at the beginning, and
  \<open>$\<close> holds at the end of the text and just before a newline that ends the text.
\<close>

definition re_match_anchored :: "rex \<Rightarrow> str \<Rightarrow> bool" where
  "re_match_anchored body t = fullmatch (Seq body (Alt Eps (Atom (\<lambda>c. c = 10)))) t"

text \<open>
  Under \<open>re.IGNORECASE\<close> a literal letter of these patterns (\<open>u m h a o\<close>) accepts itself
  and its ASCII capital, and nothing else; the Japanese literals have no case.
\<close>

definition lit :: "codepoint \<Rightarrow> rex" where
  "lit p = Atom (\<lambda>c. c = p \<or> (97 \<le> p \<and> p \<le> 122 \<and> c + 32 = p))"

fun literal :: "str \<Rightarrow> rex" where
  "literal [] = Eps"
| "literal (p # ps) = Seq (lit p) (literal ps)"

text \<open>
  \<open>[a-zA-Z]\<close> under \<open>re.IGNORECASE\<close> on a \<open>str\<close>: the 52 ASCII letters and the four
  letters whose case mapping is an ASCII letter (U+0130, U+0131, U+017F, U+212A).
\<close>

definition is_letter :: "codepoint \<Rightarrow> bool" where
  "is_letter c \<longleftrightarrow>
     (65 \<le> c \<and> c \<le> 90) \<or> (97 \<le> c \<and> c \<le> 122) \<or> c = 304 \<or> c = 305 \<or> c = 383 \<or> c = 8490"

text \<open>
  \<open>\d\<close> on a \<open>str\<close>: the decimal digits of every script (Unicode category Nd), given by
  the first and last code point of each block of digits.
\<close>

definition decimal_ranges :: "(codepoint \<times> codepoint) list" where
  "decimal_ranges =
    [(48, 57), (1632, 1641), (1776, 1785), (1984, 1993), (2406, 2415), (2534, 2543),
     (2662, 2671), (2790, 2799), (2918, 2927), (3046, 3055), (3174, 3183), (3302, 3311),
     (3430, 3439), (3558, 3567), (3664, 3673), (3792, 3801), (3872, 3881), (4160, 4169),
     (4240, 4249), (6112, 6121), (6160, 6169), (6470, 6479), (6608, 6617), (6784, 6793),
     (6800, 6809), (6992, 7001), (7088, 7097), (7232, 7241), (7248, 7257), (42528, 42537),
     (43216, 43225), (43264, 43273), (43472, 43481), (43504, 43513), (43600, 43609),
     (44016, 44025), (65296, 65305), (66720, 66729), (68912, 68921), (69734, 69743),
     (69872, 69881), (69942, 69951), (70096, 70105), (70384, 70393), (70736, 70745),
     (70864, 70873), (71248, 71257), (71360, 71369), (71472, 71481), (71904, 71913),
     (72016, 72025), (72784, 72793), (73040, 73049), (73120, 73129), (92768, 92777),
     (92864, 92873), (93008, 93017), (120782, 120831), (123200, 123209), (123632, 123641),
     (125264, 125273), (130032, 130041)]"

definition is_decimal :: "codepoint \<Rightarrow> bool" where
  "is_decimal c = list_ex (\<lambda>(lo, hi). lo \<le> c \<and> c \<le> hi) decimal_ranges"

text \<open>The characters of the class \<open>[!@#$%^&*(),.?":{}|<>]\<close>; 34 is the double quote.\<close>

definition is_symbol :: "codepoint \<Rightarrow> bool" where
  "is_symbol c \<longleftrightarrow> c \<in> set (ascii ''!@#$%^&*(),.?:{}|<>'' @ [34])"

text \<open>
  The list \<open>noise_patterns\<close> of \<open>is_valid_transcription\<close>, in its order. Every pattern
  is of the form \<open>^body$\<close>; the bodies follow. The hiragana and katakana are written by
  code point: a 12354, i 12356, u 12358, e 12360, o 12362, n 12435, small tsu 12387,
  ideographic full stop 12290, ideographic comma 12289, prolonged sound mark 12540,
  no 12398, so 12381, ma 12414.
\<close>

definition noise_patterns :: "rex list" where
  "noise_patterns =
    [Atom is_letter,
     Plus (Atom is_decimal),
     Plus (Atom is_symbol),
     Plus (alts (map lit [12354, 12356, 12358, 12360, 12362, 12435, 12387, 12290, 12289])),
     Seq (alts (map literal [ascii ''um'', ascii ''uh'', ascii ''ah'', ascii ''oh'',
                          ascii ''mm'', ascii ''hmm'']))
         (Star (Atom is_space)),
     Seq (alts (map literal [[12360, 12540], [12354, 12540], [12358, 12540], [12435, 12540],
                          [12354, 12398], [12381, 12398], [12414, 12354]]))
         (Star (Atom is_space)),
     Star (Atom is_space)]"

section \<open>The validity filter: \<open>WhisperTranscriber.is_valid_transcription\<close>\<close>

text \<open>The constructor's configuration; \<open>config.py\<close> gives the defaults 2, 2000, 4, 2.\<close>

record WhisperTranscriber =
  min_text_length :: nat
  max_text_length :: nat
  max_repetition_chars :: nat
  max_repetition_words :: nat

definition default_transcriber :: WhisperTranscriber where
  "default_transcriber =
     \<lparr>min_text_length = 2, max_text_length = 2000,
      max_repetition_chars = 4, max_repetition_words = 2\<rparr>"

text \<open>
  The chained comparison \<open>text[i] == text[i + 1] == text[i + 2] == text[i + 3]\<close>: the
  operands are read left to right, and the first unequal pair ends the evaluation, so an
  index beyond the end raises only when every pair before it is equal.
\<close>

definition four_equal :: "str \<Rightarrow> nat \<Rightarrow> exc + bool" where
  "four_equal t i =
     (case char_at t i of Inl e \<Rightarrow> Inl e | Inr a \<Rightarrow>
     (case char_at t (i + 1) of Inl e \<Rightarrow> Inl e | Inr b \<Rightarrow>
      if a \<noteq> b then Inr False else
     (case char_at t (i + 2) of Inl e \<Rightarrow> Inl e | Inr c \<Rightarrow>
      if b \<noteq> c then Inr False else
     (case char_at t (i + 3) of Inl e \<Rightarrow> Inl e | Inr d \<Rightarrow> Inr (c = d)))))"

text \<open>
  The character loop over the indices \<open>range(len(text) - max_repetition_chars)\<close>;
  \<open>Inr True\<close> when the loop reaches its \<open>return False\<close>, \<open>Inr False\<close> when it ends.
\<close>

fun char_repetition :: "WhisperTranscriber \<Rightarrow> str \<Rightarrow> nat list \<Rightarrow> exc + bool" where
  "char_repetition cfg t [] = Inr False"
| "char_repetition cfg t (i # is) =
     (case four_equal t i of
        Inl e \<Rightarrow> Inl e
      | Inr eq \<Rightarrow>
          if eq \<and> max_repetition_chars cfg = 4 then Inr True
          else char_repetition cfg t is)"

text \<open>
  The word loop: some \<open>i\<close> in \<open>range(len(words) - max_repetition_words)\<close> with
  \<open>words[i] == words[i + j]\<close> for all \<open>j\<close> in \<open>range(1, max_repetition_words + 1)\<close>.
  Every index read is below \<open>len(words)\<close>.
\<close>

definition word_repetition :: "WhisperTranscriber \<Rightarrow> str list \<Rightarrow> bool" where
  "word_repetition cfg ws =
     list_ex (\<lambda>i. list_all (\<lambda>j. ws ! i = ws ! (i + j)) [1 ..< max_repetition_words cfg + 1])
       [0 ..< length ws - max_repetition_words cfg]"

definition is_valid_transcription :: "WhisperTranscriber \<Rightarrow> str \<Rightarrow> exc + bool" where
  "is_valid_transcription cfg text0 =
     (if text0 = [] \<or> length (strip text0) < min_text_length cfg then Inr False
      else
        let t = strip text0 in
        if length t > max_text_length cfg then Inr False
        else
          case char_repetition cfg t [0 ..< length t - max_repetition_chars cfg] of
            Inl e \<Rightarrow> Inl e
          | Inr True \<Rightarrow> Inr False
          | Inr False \<Rightarrow>
              let ws = split t in
              if length ws \<ge> max_repetition_words cfg * 2 \<and> word_repetition cfg ws
              then Inr False
              else if list_ex (\<lambda>p. re_match_anchored p t) noise_patterns then Inr False
              else Inr True)"

section \<open>The segmenter: \<open>AudioBuffer\<close>\<close>

text \<open>
  The level of an array of samples is \<open>np.sqrt(np.mean(data ** 2))\<close>, which the
  numerical library computes in 32-bit floating point: the result is NaN (so for an empty
  array), infinite (when a square overflows), or a number. The library is outside the
  program, and its rounding is not modelled: the function from an array to its level is a
  component \<open>np_level\<close> of the buffer, and what follows holds for every such function.
  A comparison with NaN is false; the infinite level is above every threshold.
\<close>

datatype level = NaN | PosInf | Level real

definition level_lt :: "level \<Rightarrow> real \<Rightarrow> bool" where
  "level_lt l x = (case l of NaN \<Rightarrow> False | PosInf \<Rightarrow> False | Level v \<Rightarrow> v < x)"

definition level_gt :: "level \<Rightarrow> real \<Rightarrow> bool" where
  "level_gt l x = (case l of NaN \<Rightarrow> False | PosInf \<Rightarrow> True | Level v \<Rightarrow> x < v)"

text \<open>
  The fields of the class. A sample is the real number a 32-bit float of the wire
  denotes. The thresholds are the numbers the comparisons use. The field \<open>buffer\<close> of
  the class is never used and is left out.
\<close>

record AudioBuffer =
  sample_rate :: nat
  silence_threshold :: real
  silence_duration :: real
  min_audio_level :: real
  max_audio_chunk_duration :: nat
  silence_frames :: nat
  current_silence_count :: nat
  audio_chunk :: "real list"
  min_chunk_length :: nat
  np_level :: "real list \<Rightarrow> level"

text \<open>
  \<open>__init__\<close>. The products \<open>silence_duration * sample_rate\<close> and \<open>0.5 * sample_rate\<close>
  are taken in double precision: \<open>fmul\<close> is that multiplication, outside the program.
  \<open>int(x)\<close> truncates; the counters it is compared with are not negative, so a result
  below zero acts as zero.
\<close>

definition AudioBuffer_init ::
  "(real \<Rightarrow> real \<Rightarrow> real) \<Rightarrow> (real list \<Rightarrow> level) \<Rightarrow> nat \<Rightarrow> real \<Rightarrow> real \<Rightarrow> real \<Rightarrow> nat
     \<Rightarrow> AudioBuffer" where
  "AudioBuffer_init fmul lvl sr st sd mal macd =
     \<lparr>sample_rate = sr, silence_threshold = st, silence_duration = sd,
      min_audio_level = mal, max_audio_chunk_duration = macd,
      silence_frames = nat \<lfloor>fmul sd (real sr)\<rfloor>,
      current_silence_count = 0,
      audio_chunk = [],
      min_chunk_length = nat \<lfloor>fmul 0.5 (real sr)\<rfloor>,
      np_level = lvl\<rparr>"

text \<open>
  The level in exact arithmetic. It is not the library's function, which rounds; it
  stands for it in the examples below. Their arrays hold one value throughout (0, 1 or
  1/1024) or ones followed by three times as many zeros, so that the squares, their sum,
  the mean (0, 1, 1/1048576 or 1/4) and its square root are 32-bit floats and the
  library's computation on them is exact; the levels (0, 1, 1/1024 and 1/2) are far from
  the thresholds.
\<close>

definition exact_level :: "real list \<Rightarrow> level" where
  "exact_level xs =
     (if xs = [] then NaN
      else Level (sqrt (sum_list (map (\<lambda>x. x ^ 2) xs) / real (length xs))))"

text \<open>
  The buffer \<open>main.py\<close> builds from the defaults of \<open>config.py\<close>:
  \<open>int(0.7 * 16000)\<close> is 11200 and \<open>int(0.5 * 16000)\<close> is 8000.
\<close>

definition default_buffer :: AudioBuffer where
  "default_buffer =
     \<lparr>sample_rate = 16000, silence_threshold = 0.01, silence_duration = 0.7,
      min_audio_level = 0.005, max_audio_chunk_duration = 30,
      silence_frames = 11200,
      current_silence_count = 0,
      audio_chunk = [],
      min_chunk_length = 8000,
      np_level = exact_level\<rparr>"

text \<open>The two assignments that empty the chunk and the counter.\<close>

definition reset :: "AudioBuffer \<Rightarrow> AudioBuffer" where
  "reset b = b\<lparr>audio_chunk := [], current_silence_count := 0\<rparr>"

text \<open>The first part of \<open>add_audio\<close>: the silence counter and \<open>audio_chunk.extend\<close>.\<close>

definition accumulate :: "AudioBuffer \<Rightarrow> real list \<Rightarrow> AudioBuffer" where
  "accumulate b audio_data =
     (let b1 = (if level_lt (np_level b audio_data) (silence_threshold b)
                then b\<lparr>current_silence_count := current_silence_count b + length audio_data\<rparr>
                else b\<lparr>current_silence_count := 0\<rparr>)
      in b1\<lparr>audio_chunk := audio_chunk b1 @ audio_data\<rparr>)"

text \<open>The last part of \<open>add_audio\<close>: the forced split and the final \<open>return None\<close>.\<close>

definition forced_split :: "AudioBuffer \<Rightarrow> real list option \<times> AudioBuffer" where
  "forced_split b =
     (if length (audio_chunk b) > sample_rate b * max_audio_chunk_duration b
      then (Some (audio_chunk b), reset b)
      else (None, b))"

text \<open>\<open>add_audio\<close> returns the chunk, or \<open>None\<close>, and the buffer as the call leaves it.\<close>

definition add_audio :: "AudioBuffer \<Rightarrow> real list \<Rightarrow> real list option \<times> AudioBuffer" where
  "add_audio b0 audio_data =
     (let b = accumulate b0 audio_data in
      if current_silence_count b \<ge> silence_frames b \<and>
         length (audio_chunk b) \<ge> min_chunk_length b
      then
        (if level_gt (np_level b (audio_chunk b)) (min_audio_level b)
         then (Some (audio_chunk b), reset b)
         else forced_split (reset b))
      else forced_split b)"

section \<open>The program log\<close>

text \<open>
  The records the transcriber and the server write with \<open>logger\<close>, one constructor for
  each message, with the values the message prints. \<open>TranscriptionError\<close> is the
  message \<open>Transcription error: {e}\<close>, which both \<open>transcribe\<close> and \<open>queue_worker\<close>
  write; \<open>ProcessingAudioChunk\<close> carries the length of the chunk in samples.
\<close>

datatype log_record =
    ClientConnected nat
  | ClientDisconnected nat
  | HistoryCleared
  | ProcessingAudioChunk nat
  | TaskAdded nat
  | ProcessingTask nat
  | TranscriptionResult str
  | EmptyTranscription nat
  | CompletedTask nat
  | TranscriptionError exc
  | InvalidFiltered str

section \<open>The engine wrapper: \<open>WhisperTranscriber.transcribe\<close>\<close>

text \<open>
  The speech-to-text model is outside the program: a call of \<open>self.model.transcribe\<close>,
  with the iteration over its segments, either raises or yields the texts of the
  segments. \<open>transcribe\<close> joins and trims them and applies the validity filter; the
  \<open>except Exception\<close> clause turns every exception of the body into the empty text.
  The result is the text returned and the records written to the log.
\<close>

type_synonym model_result = "exc + str list"

definition transcribe :: "WhisperTranscriber \<Rightarrow> model_result \<Rightarrow> str \<times> log_record list" where
  "transcribe cfg segments =
     (case segments of
        Inl e \<Rightarrow> ([], [TranscriptionError e])
      | Inr segs \<Rightarrow>
          (let t = strip (concat segs) in
           case is_valid_transcription cfg t of
             Inl e \<Rightarrow> ([], [TranscriptionError e])
           | Inr valid \<Rightarrow> if valid then (t, []) else ([], [InvalidFiltered t])))"

section \<open>The server: \<open>WebSocketServer\<close>\<close>

type_synonym client = nat
type_synonym time = real

datatype notion_result = NotionSaved str str | NotionFailed str

text \<open>
  The JSON events, by their \<open>type\<close>, with their fields in the order of the source:
  \<open>transcription\<close> (text, server_timestamp, client_timestamp, queue_id when given),
  \<open>full_transcription\<close> (text, count), \<open>queue_status\<close> (processing_count,
  pending_count, currently_processing, timestamp), \<open>summary_processing\<close> (message),
  \<open>notion_processing\<close> (message), \<open>summary_result\<close> (success, summary,
  notion_result, message; \<open>None\<close> for a key that is absent or null),
  \<open>transcription_cleared\<close> (message) and \<open>pong\<close>.
\<close>

datatype message =
    Transcription str time time "nat option"
  | FullTranscription str int
  | QueueStatus int int bool time
  | SummaryProcessing str
  | NotionProcessing str
  | SummaryResult bool "str option" "notion_result option" "str option"
  | TranscriptionCleared str
  | Pong

record log_item =
  item_text :: str
  item_timestamp :: time

record task =
  task_audio_chunk :: "real list"
  task_server_timestamp :: time
  task_queue_id :: nat

text \<open>
  The state of the server. \<open>clients\<close> is the set of connections, as a list without
  repetition: the order of the list is the order in which an iteration visits the set.
  \<open>task_data\<close> is the local variable of \<open>queue_worker\<close>: the task the worker holds
  while it awaits the engine, \<open>None\<close> while it waits at \<open>transcription_queue.get()\<close>.
  \<open>sent\<close> is the effect of \<open>send\<close>: the events delivered to each connection, oldest
  first. \<open>logged\<close> is the program log of the server and its transcriber. The
  fields \<open>processing_count\<close>, \<open>event_loop\<close>, \<open>summarizer\<close> and
  \<open>notion_client\<close> take no part in what follows.
\<close>

record WebSocketServer =
  clients :: "client list"
  audio_buffer :: AudioBuffer
  transcriber :: WhisperTranscriber
  full_transcription :: "log_item list"
  transcription_queue :: "task list"
  currently_processing :: bool
  queue_id_counter :: nat
  task_data :: "task option"
  sent :: "client \<Rightarrow> message list"
  logged :: "log_record list"

definition WebSocketServer_init :: "AudioBuffer \<Rightarrow> WhisperTranscriber \<Rightarrow> WebSocketServer" where
  "WebSocketServer_init buf cfg =
     \<lparr>clients = [], audio_buffer = buf, transcriber = cfg, full_transcription = [],
      transcription_queue = [], currently_processing = False, queue_id_counter = 0,
      task_data = None, sent = (\<lambda>c. []), logged = []\<rparr>"

definition log_write :: "log_record \<Rightarrow> WebSocketServer \<Rightarrow> WebSocketServer" where
  "log_write r s = s\<lparr>logged := logged s @ [r]\<rparr>"

subsection \<open>The connection hub\<close>

definition register_client :: "client \<Rightarrow> WebSocketServer \<Rightarrow> WebSocketServer" where
  "register_client c s =
     log_write (ClientConnected c)
       (s\<lparr>clients := (if c \<in> set (clients s) then clients s else clients s @ [c])\<rparr>)"

text \<open>\<open>self.clients.discard(client)\<close>\<close>

definition discard :: "client \<Rightarrow> WebSocketServer \<Rightarrow> WebSocketServer" where
  "discard c s = s\<lparr>clients := removeAll c (clients s)\<rparr>"

definition unregister_client :: "client \<Rightarrow> WebSocketServer \<Rightarrow> WebSocketServer" where
  "unregister_client c s = log_write (ClientDisconnected c) (discard c s)"

text \<open>
  \<open>await client.send(...)\<close>. The peers whose connection is closed are given by the set
  \<open>gone\<close>: a send to one of them raises ConnectionClosed (\<open>None\<close>), a send to any
  other delivers the event. A send fails in no other way.
\<close>

definition send :: "client set \<Rightarrow> client \<Rightarrow> message \<Rightarrow> WebSocketServer \<Rightarrow> WebSocketServer option" where
  "send gone c m s =
     (if c \<in> gone then None
      else Some (s\<lparr>sent := (sent s)(c := sent s c @ [m])\<rparr>))"

text \<open>
  The first loop of \<open>broadcast_message\<close>, over the clients still to visit, with the list
  \<open>disconnected\<close> it builds.
\<close>

fun send_loop ::
  "client set \<Rightarrow> message \<Rightarrow> client list \<Rightarrow> WebSocketServer \<Rightarrow> client list
     \<Rightarrow> WebSocketServer \<times> client list" where
  "send_loop gone m [] s disconnected = (s, disconnected)"
| "send_loop gone m (c # cs) s disconnected =
     (case send gone c m s of
        None \<Rightarrow> send_loop gone m cs s (disconnected @ [c])
      | Some s' \<Rightarrow> send_loop gone m cs s' disconnected)"

definition broadcast_message :: "client set \<Rightarrow> message \<Rightarrow> WebSocketServer \<Rightarrow> WebSocketServer" where
  "broadcast_message gone m s =
     (if clients s = [] then s
      else case send_loop gone m (clients s) s [] of
             (s', disconnected) \<Rightarrow> fold discard disconnected s')"

text \<open>
  \<open>broadcast_message\<close> above is the broadcast that no other coroutine disturbs. The
  program iterates the set \<open>self.clients\<close> itself, and every \<open>await client.send\<close> lets
  other coroutines run: the handler of a connection may register it, or unregister it when
  its peer has closed. \<open>changes\<close> gives, for each send in turn, what happens to the set
  while that send is suspended: at most one connection joins or leaves, and none once the
  list is exhausted. The iterator of a set compares the size of the set with its size when
  the loop began, \<open>used\<close>, before it yields an element and before it ends, and raises
  RuntimeError when they differ; while the sizes agree the set is unchanged, and the
  element at the next position of the list is the next one. \<open>broadcast_message\<close>
  catches ConnectionClosed only, so the RuntimeError leaves it, with the state as it is
  then. The last number counts the elements still to visit.
\<close>

datatype membership_change = Joins client | Leaves client

definition change_clients :: "membership_change option \<Rightarrow> WebSocketServer \<Rightarrow> WebSocketServer" where
  "change_clients ch s =
     (case ch of
        None \<Rightarrow> s
      | Some (Joins c) \<Rightarrow> register_client c s
      | Some (Leaves c) \<Rightarrow> unregister_client c s)"

definition set_changed :: exc where
  "set_changed = Exc RuntimeError (ascii ''Set changed size during iteration'')"

fun send_loop_live ::
  "client set \<Rightarrow> message \<Rightarrow> membership_change option list \<Rightarrow> nat \<Rightarrow> nat \<Rightarrow> WebSocketServer
     \<Rightarrow> client list \<Rightarrow> exc \<times> WebSocketServer + WebSocketServer \<times> client list" where
  "send_loop_live gone m changes used 0 s disconnected =
     (if length (clients s) \<noteq> used then Inl (set_changed, s)
      else Inr (s, disconnected))"
| "send_loop_live gone m changes used (Suc k) s disconnected =
     (if length (clients s) \<noteq> used then Inl (set_changed, s)
      else
        (let c = clients s ! (used - Suc k);
             ch = (case changes of [] \<Rightarrow> None | x # xs \<Rightarrow> x)
         in case send gone c m s of
              None \<Rightarrow>
                send_loop_live gone m (tl changes) used k (change_clients ch s)
                  (disconnected @ [c])
            | Some s' \<Rightarrow>
                send_loop_live gone m (tl changes) used k (change_clients ch s')
                  disconnected))"

text \<open>
  The result is the state the call returns in, or the exception that leaves it with the
  state at that moment.
\<close>

definition broadcast_message_live ::
  "client set \<Rightarrow> message \<Rightarrow> membership_change option list \<Rightarrow> WebSocketServer
     \<Rightarrow> exc \<times> WebSocketServer + WebSocketServer" where
  "broadcast_message_live gone m changes s =
     (if clients s = [] then Inr s
      else case send_loop_live gone m changes (length (clients s)) (length (clients s)) s [] of
             Inl (e, s') \<Rightarrow> Inl (e, s')
           | Inr (s', disconnected) \<Rightarrow> Inr (fold discard disconnected s'))"

fun raised :: "exc \<times> WebSocketServer + WebSocketServer \<Rightarrow> exc option" where
  "raised (Inl (e, s)) = Some e"
| "raised (Inr s) = None"

fun state_left :: "exc \<times> WebSocketServer + WebSocketServer \<Rightarrow> WebSocketServer" where
  "state_left (Inl (e, s)) = s"
| "state_left (Inr s) = s"

subsection \<open>The transcript log and the queue\<close>

text \<open>
  \<open>broadcast_queue_status\<close>; \<open>now\<close> is the reading of \<open>time.time()\<close>. The counts are
  JSON integers.
\<close>

definition queue_status_message :: "time \<Rightarrow> WebSocketServer \<Rightarrow> message" where
  "queue_status_message now s =
     (let pending_tasks = int (length (transcription_queue s));
          total_tasks = pending_tasks + (if currently_processing s then 1 else 0)
      in QueueStatus total_tasks pending_tasks (currently_processing s) now)"

definition broadcast_queue_status :: "client set \<Rightarrow> time \<Rightarrow> WebSocketServer \<Rightarrow> WebSocketServer" where
  "broadcast_queue_status gone now s = broadcast_message gone (queue_status_message now s) s"

definition finish_transcription_task :: "nat \<Rightarrow> WebSocketServer \<Rightarrow> WebSocketServer" where
  "finish_transcription_task queue_id s = log_write (CompletedTask queue_id) s"

text \<open>
  \<open>broadcast_transcription\<close>. The clock is read once for \<open>now\<close>. The call of
  \<open>finish_transcription_task\<close> stands after the \<open>if\<close> block.
\<close>

definition broadcast_transcription ::
  "client set \<Rightarrow> time \<Rightarrow> str \<Rightarrow> time option \<Rightarrow> nat option \<Rightarrow> WebSocketServer \<Rightarrow> WebSocketServer" where
  "broadcast_transcription gone now t server_timestamp queue_id s =
     (let s2 =
        (if clients s \<noteq> [] \<and> strip t \<noteq> [] then
           (let ts = (case server_timestamp of None \<Rightarrow> now | Some x \<Rightarrow> x);
                s1 = s\<lparr>full_transcription :=
                        full_transcription s @ [\<lparr>item_text = t, item_timestamp = ts\<rparr>]\<rparr>
            in broadcast_message gone (Transcription t ts now queue_id) s1)
         else s)
      in case queue_id of None \<Rightarrow> s2 | Some q \<Rightarrow> finish_transcription_task q s2)"

text \<open>\<open>" ".join(...)\<close> of the texts of the log.\<close>

fun join_space :: "str list \<Rightarrow> str" where
  "join_space [] = []"
| "join_space [x] = x"
| "join_space (x # y # ys) = x @ [32] @ join_space (y # ys)"

text \<open>\<open>send_full_transcription\<close>: a closed connection is ignored.\<close>

definition send_full_transcription :: "client set \<Rightarrow> client \<Rightarrow> WebSocketServer \<Rightarrow> WebSocketServer" where
  "send_full_transcription gone websocket s =
     (let full_text = join_space (map item_text (full_transcription s));
          m = FullTranscription full_text (int (length (full_transcription s)))
      in case send gone websocket m s of None \<Rightarrow> s | Some s' \<Rightarrow> s')"

definition clear_transcription :: "WebSocketServer \<Rightarrow> WebSocketServer" where
  "clear_transcription s = log_write HistoryCleared (s\<lparr>full_transcription := []\<rparr>)"

definition add_transcription_task ::
  "real list \<Rightarrow> time \<Rightarrow> nat \<Rightarrow> WebSocketServer \<Rightarrow> WebSocketServer" where
  "add_transcription_task chunk server_timestamp queue_id s =
     log_write (TaskAdded queue_id)
       (s\<lparr>transcription_queue := transcription_queue s @
            [\<lparr>task_audio_chunk = chunk, task_server_timestamp = server_timestamp,
              task_queue_id = queue_id\<rparr>]\<rparr>)"

text \<open>
  \<open>handle_audio_data\<close>, on the samples of one binary frame. Between \<open>add_audio\<close> and the
  \<open>put\<close> on the unbounded queue the coroutine never suspends.
\<close>

definition handle_audio_data ::
  "client set \<Rightarrow> time \<Rightarrow> real list \<Rightarrow> WebSocketServer \<Rightarrow> WebSocketServer" where
  "handle_audio_data gone now audio_data s =
     (case add_audio (audio_buffer s) audio_data of
        (None, buf) \<Rightarrow> s\<lparr>audio_buffer := buf\<rparr>
      | (Some chunk, buf) \<Rightarrow>
          (let s0 = log_write (ProcessingAudioChunk (length chunk)) (s\<lparr>audio_buffer := buf\<rparr>);
               s1 = s0\<lparr>queue_id_counter := queue_id_counter s0 + 1\<rparr>;
               s2 = add_transcription_task chunk now (queue_id_counter s1) s1
           in broadcast_queue_status gone now s2))"

text \<open>
  \<open>queue_worker\<close>: one iteration of its loop, in two steps, divided where the worker
  awaits the executor and other coroutines run. The first step takes the oldest task from
  the queue (the worker waits while the queue is empty), sets the flag and broadcasts the
  queue status. The second step receives the outcome of the call in the executor: the
  call raises (\<open>Inl\<close>), or \<open>transcribe\<close> returns on the outcome of the model. A step
  that the worker cannot take in its state leaves the state as it is. The last statement
  of the iteration, \<open>task_done()\<close>, only counts for \<open>join()\<close>, which nothing calls.
  The broadcasts of a step are undisturbed ones: a send in them fails by ConnectionClosed
  only, which \<open>broadcast_message\<close> catches, so nothing raises outside the inner
  \<open>try\<close>, and the outer \<open>except\<close> clause of the loop is not entered.
\<close>

definition queue_worker_take :: "client set \<Rightarrow> time \<Rightarrow> WebSocketServer \<Rightarrow> WebSocketServer" where
  "queue_worker_take gone now s =
     (case task_data s of
        Some t \<Rightarrow> s
      | None \<Rightarrow>
          (case transcription_queue s of
             [] \<Rightarrow> s
           | t # q \<Rightarrow>
               (let s1 = log_write (ProcessingTask (task_queue_id t))
                           (s\<lparr>transcription_queue := q, task_data := Some t\<rparr>);
                    s2 = s1\<lparr>currently_processing := True\<rparr>
                in broadcast_queue_status gone now s2)))"

definition queue_worker_finish ::
  "client set \<Rightarrow> client set \<Rightarrow> time \<Rightarrow> exc + model_result \<Rightarrow> WebSocketServer \<Rightarrow> WebSocketServer" where
  "queue_worker_finish gone1 gone2 now outcome s =
     (case task_data s of
        None \<Rightarrow> s
      | Some t \<Rightarrow>
          (let s1 = (case outcome of
                       Inl e \<Rightarrow> log_write (TranscriptionError e) s
                     | Inr segments \<Rightarrow>
                         (case transcribe (transcriber s) segments of
                            (txt, records) \<Rightarrow>
                              (let s0 = s\<lparr>logged := logged s @ records\<rparr> in
                               if txt \<noteq> [] \<and> strip txt \<noteq> []
                               then broadcast_transcription gone1 now txt
                                      (Some (task_server_timestamp t)) (Some (task_queue_id t))
                                      (log_write (TranscriptionResult txt) s0)
                               else log_write (EmptyTranscription (task_queue_id t)) s0)));
               s2 = s1\<lparr>currently_processing := False\<rparr>;
               s3 = broadcast_queue_status gone2 now s2
           in s3\<lparr>task_data := None\<rparr>))"

subsection \<open>Runs of the server\<close>

text \<open>
  What happens to the server, one coroutine step at a time: a connection opens or ends,
  a binary frame or a control message arrives, the worker takes a task, the executor
  returns. Each event carries what the environment decides in it: the clock (read once
  in a step), the closed peers, the outcome of the engine. A step runs to its end before
  the next begins, so the broadcasts in it are undisturbed.
\<close>

datatype event =
    Connect client
  | Disconnect client
  | AudioFrame "real list" time "client set"
  | GetFullTranscription client "client set"
  | ClearTranscription "client set"
  | WorkerTake time "client set"
  | WorkerFinish "exc + model_result" time "client set" "client set"

fun step :: "event \<Rightarrow> WebSocketServer \<Rightarrow> WebSocketServer" where
  "step (Connect c) s = register_client c s"
| "step (Disconnect c) s = unregister_client c s"
| "step (AudioFrame audio_data now gone) s = handle_audio_data gone now audio_data s"
| "step (GetFullTranscription c gone) s = send_full_transcription gone c s"
| "step (ClearTranscription gone) s =
     broadcast_message gone
       (TranscriptionCleared (ascii ''Transcription history cleared''))
       (clear_transcription s)"
| "step (WorkerTake now gone) s = queue_worker_take gone now s"
| "step (WorkerFinish outcome now gone1 gone2) s =
     queue_worker_finish gone1 gone2 now outcome s"

fun run :: "event list \<Rightarrow> WebSocketServer \<Rightarrow> WebSocketServer" where
  "run [] s = s"
| "run (e # es) s = run es (step e s)"

text \<open>
  Observations of a run, for stating in which order tasks are taken and records enter the
  log. They compare the state before and after each step: the tasks the step adds at the
  end of the queue, the task the worker comes to hold in the step, and the records the
  step appends to the log, each with the \<open>queue_id\<close> of the task the worker holds in
  that step (\<open>None\<close> if it holds no task).
\<close>

definition enqueued_by :: "WebSocketServer \<Rightarrow> WebSocketServer \<Rightarrow> task list" where
  "enqueued_by s s' = drop (length (transcription_queue s)) (transcription_queue s')"

definition taken_by :: "WebSocketServer \<Rightarrow> WebSocketServer \<Rightarrow> task list" where
  "taken_by s s' =
     (case task_data s of
        Some t \<Rightarrow> []
      | None \<Rightarrow> (case task_data s' of None \<Rightarrow> [] | Some t \<Rightarrow> [t]))"

definition appended_by ::
  "WebSocketServer \<Rightarrow> WebSocketServer \<Rightarrow> (nat option \<times> log_item) list" where
  "appended_by s s' =
     map (\<lambda>r. (map_option task_queue_id (task_data s), r))
       (drop (length (full_transcription s)) (full_transcription s'))"

fun enqueued :: "event list \<Rightarrow> WebSocketServer \<Rightarrow> task list" where
  "enqueued [] s = []"
| "enqueued (e # es) s = enqueued_by s (step e s) @ enqueued es (step e s)"

fun taken :: "event list \<Rightarrow> WebSocketServer \<Rightarrow> task list" where
  "taken [] s = []"
| "taken (e # es) s = taken_by s (step e s) @ taken es (step e s)"

fun log_appends :: "event list \<Rightarrow> WebSocketServer \<Rightarrow> (nat option \<times> log_item) list" where
  "log_appends [] s = []"
| "log_appends (e # es) s = appended_by s (step e s) @ log_appends es (step e s)"

fun is_clear :: "event \<Rightarrow> bool" where
  "is_clear (ClearTranscription gone) = True"
| "is_clear e = False"

text \<open>
  The tasks not yet finished, oldest first: the one the worker holds, then the queue.
  In a state the server reaches their identifiers increase and none exceeds the counter.
\<close>

definition pending_ids :: "WebSocketServer \<Rightarrow> nat list" where
  "pending_ids s =
     map task_queue_id
       ((case task_data s of None \<Rightarrow> [] | Some t \<Rightarrow> [t]) @ transcription_queue s)"

definition queue_ordered :: "WebSocketServer \<Rightarrow> bool" where
  "queue_ordered s \<longleftrightarrow>
     sorted_wrt (<) (pending_ids s) \<and> list_all (\<lambda>i. i \<le> queue_id_counter s) (pending_ids s)"

text \<open>A \<open>queue_status\<close> event whose counts agree; any other event.\<close>

fun queue_status_consistent :: "message \<Rightarrow> bool" where
  "queue_status_consistent (QueueStatus processing_count pending_count processing ts) =
     (0 \<le> pending_count \<and>
      processing_count = pending_count + (if processing then 1 else 0))"
| "queue_status_consistent m = True"

subsection \<open>A scenario\<close>

text \<open>
  An utterance is 4096 samples of speech at level 1 and then 12288 samples of silence,
  which make one chunk under the default configuration. In the scenario two viewers connect and three utterances arrive, the
  second and third while the engine works on the first; the engine returns a text for the
  first, fails on the second, and returns a text for the third, when the second viewer
  is gone.
\<close>

definition speech :: "real list" where
  "speech = replicate 4096 1"

definition silence :: "real list" where
  "silence = replicate 12288 0"

definition server0 :: WebSocketServer where
  "server0 = WebSocketServer_init default_buffer default_transcriber"

definition first_taken :: "event list" where
  "first_taken =
     [Connect 1, Connect 2,
      AudioFrame speech 10 {}, AudioFrame silence 11 {},
      WorkerTake 12 {},
      AudioFrame speech 13 {}, AudioFrame silence 14 {},
      AudioFrame speech 15 {}, AudioFrame silence 16 {}]"

definition second_taken :: "event list" where
  "second_taken =
     first_taken @
     [WorkerFinish (Inr (Inr [ascii ''hello '', ascii ''world''])) 17 {} {},
      WorkerTake 18 {}]"

definition scenario :: "event list" where
  "scenario =
     second_taken @
     [WorkerFinish (Inr (Inl (Exc OtherException (ascii ''out of memory'')))) 19 {} {},
      WorkerTake 20 {},
      WorkerFinish (Inr (Inr [ascii ''good morning''])) 21 {2} {}]"

text \<open>
  A shorter run: the only viewer disconnects while the engine works on the first
  utterance, and the engine then returns a text.
\<close>

definition viewer_leaves :: "event list" where
  "viewer_leaves =
     [Connect 1,
      AudioFrame speech 10 {}, AudioFrame silence 11 {},
      WorkerTake 12 {},
      Disconnect 1,
      WorkerFinish (Inr (Inr [ascii ''hello '', ascii ''world''])) 17 {} {}]"

section \<open>Summarization: \<open>handle_summarize_request\<close> and its collaborators\<close>

text \<open>
  \<open>GeminiSummarizer.summarize\<close>. The generative model is outside the program:
  \<open>model\<close> is \<open>None\<close> when the constructor found no key or failed, and otherwise the
  function from the full prompt to the outcome of \<open>generate_content_async\<close> and of
  reading \<open>response.text\<close>, an exception or the text. The wording of the default prompt
  plays no role and is the parameter \<open>default_prompt\<close>. The label between prompt and text
  is given by code point. The method returns a text in every case: the
  \<open>except Exception\<close> clause turns a failure into a text that begins
  \<open>Summarization error:\<close>.
\<close>

definition GeminiSummarizer_summarize ::
  "(str \<Rightarrow> exc + str) option \<Rightarrow> str \<Rightarrow> str \<Rightarrow> str \<Rightarrow> str" where
  "GeminiSummarizer_summarize model default_prompt t custom_prompt =
     (case model of
        None \<Rightarrow> ascii ''AI summarization not available (API key missing)''
      | Some generate \<Rightarrow>
          (let prompt = (if strip custom_prompt = [] then default_prompt else custom_prompt);
               full_prompt = prompt @ [10, 10] @
                 [25991, 23383, 36215, 12371, 12375, 12486, 12461, 12473, 12488, 58] @ [10] @ t
           in case generate full_prompt of
                Inl e \<Rightarrow> ascii ''Summarization error: '' @ str_exc e
              | Inr response_text \<Rightarrow> response_text))"

text \<open>
  \<open>NotionClient.save_summary\<close>. \<open>create\<close> stands for the body of its \<open>try\<close> block
  (the title, the conversion to blocks and the call of the service): it raises, or yields
  the address and the title of the new page.
\<close>

definition NotionClient_save_summary ::
  "bool \<Rightarrow> (str \<Rightarrow> exc + str \<times> str) \<Rightarrow> str \<Rightarrow> notion_result" where
  "NotionClient_save_summary available create summary_text =
     (if \<not> available then NotionFailed (ascii ''Notion not configured'')
      else case create summary_text of
             Inl e \<Rightarrow> NotionFailed (str_exc e)
           | Inr (url, title) \<Rightarrow> NotionSaved url title)"

text \<open>
  \<open>await websocket.send(...)\<close> on the requesting connection: \<open>ws\<close> is \<open>None\<close> while
  the connection is open, and the exception every send raises otherwise. The events sent
  so far are \<open>out\<close>.
\<close>

definition ws_send :: "exc option \<Rightarrow> message \<Rightarrow> message list \<Rightarrow> exc + message list" where
  "ws_send ws m out = (case ws of None \<Rightarrow> Inr (out @ [m]) | Some e \<Rightarrow> Inl e)"

text \<open>The text to summarize: the client's, or else the transcript log joined by spaces.\<close>

definition summary_input :: "log_item list \<Rightarrow> str \<Rightarrow> str" where
  "summary_input full_log client_text =
     (if client_text \<noteq> [] \<and> strip client_text \<noteq> [] then client_text
      else join_space (map item_text full_log))"

text \<open>
  The block \<open>if self.notion_client.is_available(): try ... except Exception\<close>: the
  events sent so far and \<open>notion_result\<close>. \<open>save\<close> is the awaited call of
  \<open>save_summary\<close>.
\<close>

definition notion_step ::
  "bool \<Rightarrow> (str \<Rightarrow> exc + notion_result) \<Rightarrow> exc option \<Rightarrow> str \<Rightarrow> message list
     \<Rightarrow> message list \<times> notion_result option" where
  "notion_step available save ws summary out =
     (if available then
        (case ws_send ws (NotionProcessing (ascii ''Saving to Notion...'')) out of
           Inl e \<Rightarrow> (out, Some (NotionFailed (str_exc e)))
         | Inr out' \<Rightarrow>
             (case save summary of
                Inl e \<Rightarrow> (out', Some (NotionFailed (str_exc e)))
              | Inr r \<Rightarrow> (out', Some r)))
      else (out, None))"

text \<open>
  The body of the outer \<open>try\<close> of \<open>handle_summarize_request\<close>: the events sent, and the
  exception that ends the body, if one does. \<open>summarize\<close> is the awaited call of
  \<open>self.summarizer.summarize\<close>. What the handler writes to the program log is left
  out.
\<close>

definition summarize_try ::
  "(str \<Rightarrow> str \<Rightarrow> exc + str) \<Rightarrow> bool \<Rightarrow> (str \<Rightarrow> exc + notion_result) \<Rightarrow> exc option
     \<Rightarrow> log_item list \<Rightarrow> str \<Rightarrow> str \<Rightarrow> message list \<times> exc option" where
  "summarize_try summarize available save ws full_log custom_prompt client_text =
     (let full_text = summary_input full_log client_text in
      if strip full_text = [] then
        (case ws_send ws
                (SummaryResult False None None
                   (Some (ascii ''No text available for summarization.''))) [] of
           Inl e \<Rightarrow> ([], Some e)
         | Inr out \<Rightarrow> (out, None))
      else
        (case ws_send ws (SummaryProcessing (ascii ''AI summarization in progress...'')) [] of
           Inl e \<Rightarrow> ([], Some e)
         | Inr out1 \<Rightarrow>
             (case summarize full_text custom_prompt of
                Inl e \<Rightarrow> (out1, Some e)
              | Inr summary \<Rightarrow>
                  (case notion_step available save ws summary out1 of
                     (out2, notion_result) \<Rightarrow>
                       (case ws_send ws
                               (SummaryResult True (Some summary) notion_result None) out2 of
                          Inl e \<Rightarrow> (out2, Some e)
                        | Inr out3 \<Rightarrow> (out3, None))))))"

text \<open>
  \<open>handle_summarize_request\<close>: the events sent to the requesting connection, and the
  exception that leaves the handler, if one does. The \<open>except Exception\<close> clause sends
  the failure; an exception of that send leaves the handler.
\<close>

definition handle_summarize_request ::
  "(str \<Rightarrow> str \<Rightarrow> exc + str) \<Rightarrow> bool \<Rightarrow> (str \<Rightarrow> exc + notion_result) \<Rightarrow> exc option
     \<Rightarrow> log_item list \<Rightarrow> str \<Rightarrow> str \<Rightarrow> message list \<times> exc option" where
  "handle_summarize_request summarize available save ws full_log custom_prompt client_text =
     (case summarize_try summarize available save ws full_log custom_prompt client_text of
        (out, None) \<Rightarrow> (out, None)
      | (out, Some e) \<Rightarrow>
          (case ws_send ws (SummaryResult False None None (Some (str_exc e))) out of
             Inl e' \<Rightarrow> (out, Some e')
           | Inr out' \<Rightarrow> (out', None)))"

fun is_summary_result :: "message \<Rightarrow> bool" where
  "is_summary_result (SummaryResult success summary notion_result msg) = True"
| "is_summary_result m = False"

section \<open>Properties of the validity filter\<close>

lemmas filter_eval = is_valid_transcription_def strip_def ascii_def is_space_def
  default_transcriber_def four_equal_def char_at_def split_def word_repetition_def
  noise_patterns_def re_match_anchored_def Plus_def lit_def is_letter_def is_decimal_def
  decimal_ranges_def is_symbol_def upt_conv_Cons

text \<open>
  The character rule reads the windows that start at the indices below
  \<open>len(text) - 4\<close>, so a window that ends with the text is never read: a run of four
  is found when a character follows it, and missed when it ends the text.
\<close>

lemma run_before_end_rejected:
  "is_valid_transcription default_transcriber (ascii ''aaaab'') = Inr False"
  by (simp add: filter_eval)

lemma run_at_end_accepted:
  "is_valid_transcription default_transcriber (ascii ''baaaa'') = Inr True"
  by (simp add: filter_eval)

text \<open>
  C3. The claim: the filter rejects any text with four identical consecutive characters,
  and \<open>is_valid("aaaa")\<close> is false under the default configuration. On the code, the
  text \<open>aaaa\<close> has length 4, the character loop runs over \<open>range(0)\<close>, no other rule
  applies, and the filter accepts the text.
\<close>

theorem is_valid_aaaa_accepted:
  "is_valid_transcription default_transcriber (ascii ''aaaa'') = Inr True"
  by (simp add: filter_eval)

text \<open>
  A window of \<open>max_repetition_words + 1\<close> equal words anywhere in the word list makes the
  word loop succeed.
\<close>

lemma word_repetition_window:
  assumes "take (max_repetition_words cfg + 1) (drop i ws) =
             replicate (max_repetition_words cfg + 1) w"
  shows "word_repetition cfg ws"
proof -
  let ?m = "max_repetition_words cfg"
  have len: "length (take (?m + 1) (drop i ws)) = ?m + 1"
    using assms by simp
  then have bound: "i + ?m < length ws" by simp
  have nth: "ws ! (i + j) = w" if "j \<le> ?m" for j
  proof -
    have "j < ?m + 1" using that by simp
    then have "replicate (?m + 1) w ! j = w" by (rule nth_replicate)
    then have "take (?m + 1) (drop i ws) ! j = w" by (simp only: assms)
    then show ?thesis using that bound by simp
  qed
  have "list_all (\<lambda>j. ws ! i = ws ! (i + j)) [1 ..< ?m + 1]"
    using nth [of 0] nth by (auto simp: list_all_iff)
  moreover have "i \<in> set [0 ..< length ws - ?m]"
    using bound by simp
  ultimately show ?thesis
    unfolding word_repetition_def list_ex_iff by blast
qed

text \<open>
  C4, as the code has it. When the trimmed text has at least \<open>2 * max_repetition_words\<close>
  words and \<open>max_repetition_words + 1\<close> consecutive words of it are equal, the filter does
  not accept the text: it returns false (or, for a configuration whose character loop
  reads beyond the text, raises, which \<open>transcribe\<close> treats as a rejection). A text
  with fewer words is not subject to the rule.
\<close>

theorem repeated_words_rejected:
  assumes "max_repetition_words cfg * 2 \<le> length (split (strip t))"
    and "take (max_repetition_words cfg + 1) (drop i (split (strip t))) =
           replicate (max_repetition_words cfg + 1) w"
  shows "is_valid_transcription cfg t \<noteq> Inr True"
  using assms(1) word_repetition_window [OF assms(2)]
  by (simp add: is_valid_transcription_def Let_def split: sum.splits bool.splits)

theorem repeated_words_rejected_witness:
  "max_repetition_words default_transcriber * 2
     \<le> length (split (strip (ascii ''go go go go'')))
   \<and> take (max_repetition_words default_transcriber + 1)
        (drop 0 (split (strip (ascii ''go go go go'')))) =
      replicate (max_repetition_words default_transcriber + 1) (ascii ''go'')
   \<and> is_valid_transcription default_transcriber (ascii ''go go go go'') \<noteq> Inr True"
proof -
  have ws: "split (strip (ascii ''go go go go'')) =
              [ascii ''go'', ascii ''go'', ascii ''go'', ascii ''go'']"
    by (simp add: split_def strip_def ascii_def is_space_def)
  have h1: "max_repetition_words default_transcriber * 2
              \<le> length (split (strip (ascii ''go go go go'')))"
    by (simp add: ws default_transcriber_def)
  have h2: "take (max_repetition_words default_transcriber + 1)
              (drop 0 (split (strip (ascii ''go go go go'')))) =
            replicate (max_repetition_words default_transcriber + 1) (ascii ''go'')"
    by (simp add: ws default_transcriber_def numeral_3_eq_3)
  show ?thesis using h1 h2 repeated_words_rejected [OF h1 h2] by blast
qed

text \<open>
  C4, as the claim states it, fails: \<open>go go go\<close> has three words, fewer than
  \<open>2 * max_repetition_words = 4\<close>, so the word rule is not evaluated and the filter
  accepts the text.
\<close>

theorem go_go_go_accepted:
  "is_valid_transcription default_transcriber (ascii ''go go go'') = Inr True"
  by (simp add: filter_eval)

section \<open>Properties of the segmenter\<close>

lemma exact_level_replicate:
  "0 < n \<Longrightarrow> exact_level (replicate n x) = Level \<bar>x\<bar>"
  by (simp add: exact_level_def sum_list_replicate)

lemma accumulate_fields [simp]:
  "audio_chunk (accumulate b d) = audio_chunk b @ d"
  "silence_frames (accumulate b d) = silence_frames b"
  "min_chunk_length (accumulate b d) = min_chunk_length b"
  "min_audio_level (accumulate b d) = min_audio_level b"
  "sample_rate (accumulate b d) = sample_rate b"
  "max_audio_chunk_duration (accumulate b d) = max_audio_chunk_duration b"
  "np_level (accumulate b d) = np_level b"
  by (simp_all add: accumulate_def Let_def)



lemma reset_fields [simp]:
  "audio_chunk (reset b) = []"
  "current_silence_count (reset b) = 0"
  "sample_rate (reset b) = sample_rate b"
  "max_audio_chunk_duration (reset b) = max_audio_chunk_duration b"
  by (simp_all add: reset_def)

lemma forced_split_reset [simp]: "forced_split (reset b) = (None, reset b)"
  by (simp add: forced_split_def)

lemma default_buffer_fields:
  "silence_frames default_buffer = 11200" "min_chunk_length default_buffer = 8000"
  "sample_rate default_buffer = 16000" "max_audio_chunk_duration default_buffer = 30"
  "silence_threshold default_buffer = 0.01" "min_audio_level default_buffer = 0.005"
  "current_silence_count default_buffer = 0" "audio_chunk default_buffer = []"
  "np_level default_buffer = exact_level"
  by (simp_all add: default_buffer_def)

text \<open>
  The constructor gives the default buffer when the two products in double precision are
  11200 and 8000.
\<close>

lemma default_buffer_init:
  assumes "fmul 0.7 16000 = 11200" and "fmul 0.5 16000 = 8000"
  shows "AudioBuffer_init fmul exact_level 16000 0.01 0.7 0.005 30 = default_buffer"
  using assms by (simp add: AudioBuffer_init_def default_buffer_def)


text \<open>
  The utterance of the scenario: its level is 1/2. The buffer that holds the speech of an
  utterance, and a batch of quiet noise at level 1/1024.
\<close>

lemma utterance_level: "exact_level (speech @ silence) = Level (1 / 2)"
proof -
  have "sqrt (1 / 4) = 1 / 2"
    by (rule real_sqrt_unique) (simp_all add: power2_eq_square)
  then show ?thesis
    by (simp add: exact_level_def speech_def silence_def sum_list_replicate)
qed

lemma after_speech:
  "silence_frames (default_buffer\<lparr>audio_chunk := speech\<rparr>) = 11200"
  "min_chunk_length (default_buffer\<lparr>audio_chunk := speech\<rparr>) = 8000"
  "silence_threshold (default_buffer\<lparr>audio_chunk := speech\<rparr>) = 0.01"
  "min_audio_level (default_buffer\<lparr>audio_chunk := speech\<rparr>) = 0.005"
  "current_silence_count (default_buffer\<lparr>audio_chunk := speech\<rparr>) = 0"
  "np_level (default_buffer\<lparr>audio_chunk := speech\<rparr>) = exact_level"
  "(default_buffer\<lparr>audio_chunk := speech\<rparr>)\<lparr>audio_chunk := [], current_silence_count := 0\<rparr>
     = default_buffer"
  "default_buffer\<lparr>audio_chunk := [], current_silence_count := 0\<rparr> = default_buffer"
  by (simp_all add: default_buffer_def)


text \<open>The discard of plain silence: an utterance without speech.\<close>

lemma silence_discarded:
  "add_audio default_buffer silence = (None, default_buffer)"
  by (simp add: add_audio_def Let_def forced_split_def accumulate_def reset_def silence_def
      default_buffer_def exact_level_replicate level_lt_def level_gt_def)

text \<open>
  C7, as the code has it. When the accumulated buffer is longer than
  \<open>sample_rate * max_audio_chunk_duration\<close> samples, \<open>add_audio\<close> returns the whole
  accumulated buffer and leaves the buffer and the counter empty, unless the silence rule
  discards the buffer in the same call (counter at \<open>silence_frames\<close> or more, length at
  \<open>min_chunk_length\<close> or more, level not above \<open>min_audio_level\<close>).
\<close>

theorem forced_split_emits:
  assumes "sample_rate b * max_audio_chunk_duration b < length (audio_chunk b @ d)"
    and "\<not> (silence_frames b \<le> current_silence_count (accumulate b d) \<and>
            min_chunk_length b \<le> length (audio_chunk b @ d) \<and>
            \<not> level_gt (np_level b (audio_chunk b @ d)) (min_audio_level b))"
  shows "add_audio b d = (Some (audio_chunk b @ d), reset (accumulate b d))"
  using assms by (auto simp: add_audio_def Let_def forced_split_def)

theorem forced_split_emits_witness:
  "sample_rate (default_buffer\<lparr>audio_chunk := replicate 479000 1\<rparr>)
     * max_audio_chunk_duration (default_buffer\<lparr>audio_chunk := replicate 479000 1\<rparr>)
     < length (audio_chunk (default_buffer\<lparr>audio_chunk := replicate 479000 1\<rparr>)
               @ replicate 1001 (1::real))
   \<and> add_audio (default_buffer\<lparr>audio_chunk := replicate 479000 1\<rparr>) (replicate 1001 1) =
       (Some (replicate 479000 1 @ replicate 1001 1), default_buffer)"
proof -
  let ?b = "default_buffer\<lparr>audio_chunk := replicate 479000 1\<rparr>"
  let ?d = "replicate 1001 1 :: real list"
  have h1: "sample_rate ?b * max_audio_chunk_duration ?b < length (audio_chunk ?b @ ?d)"
    by (simp add: default_buffer_fields)
  have h2: "\<not> (silence_frames ?b \<le> current_silence_count (accumulate ?b ?d) \<and>
            min_chunk_length ?b \<le> length (audio_chunk ?b @ ?d) \<and>
            \<not> level_gt (np_level ?b (audio_chunk ?b @ ?d)) (min_audio_level ?b))"
    by (simp add: accumulate_def default_buffer_fields exact_level_replicate level_lt_def)
  have r: "reset (accumulate ?b ?d) = default_buffer"
    by (simp add: reset_def accumulate_def Let_def default_buffer_def)
  show ?thesis
    using h1 forced_split_emits [OF h1 h2] by (simp add: r)
qed

text \<open>
  C7, as the claim states it, fails twice under the default configuration. A buffer of
  exactly 30 seconds (480000 samples of speech) has reached the maximum and is not split:
  the test is \<open>len > max_chunk_length\<close>. And a batch of more than 30 seconds of silence
  is discarded by the silence rule, whatever its length.
\<close>

theorem forced_split_counterexample:
  "fst (add_audio (default_buffer\<lparr>audio_chunk := replicate 479000 1\<rparr>) (replicate 1000 1))
     = None
   \<and> length (audio_chunk (default_buffer\<lparr>audio_chunk := replicate 479000 1\<rparr>)
              @ replicate 1000 (1::real))
     = sample_rate default_buffer * max_audio_chunk_duration default_buffer
   \<and> fst (add_audio default_buffer (replicate 480001 0)) = None"
  by (simp add: add_audio_def Let_def forced_split_def accumulate_def reset_def
      default_buffer_def exact_level_replicate level_lt_def level_gt_def)

section \<open>Properties of the connection hub\<close>

text \<open>
  The loop sends the event once to each client it visits whose peer is not gone, and
  collects the others.
\<close>

lemma send_loop_eq:
  "send_loop gone m cs s d =
     (s\<lparr>sent := \<lambda>c. sent s c @ replicate (count_list (filter (\<lambda>x. x \<notin> gone) cs) c) m\<rparr>,
      d @ filter (\<lambda>x. x \<in> gone) cs)"
proof (induction cs arbitrary: s d)
  case Nil
  show ?case by simp
next
  case (Cons a cs)
  show ?case
  proof (cases "a \<in> gone")
    case True
    then show ?thesis by (simp add: send_def Cons.IH)
  next
    case False
    have "(\<lambda>c. ((sent s)(a := sent s a @ [m])) c
                @ replicate (count_list (filter (\<lambda>x. x \<notin> gone) cs) c) m) =
          (\<lambda>c. sent s c @ replicate (count_list (filter (\<lambda>x. x \<notin> gone) (a # cs)) c) m)"
      using False by (auto simp: fun_eq_iff)
    then show ?thesis using False by (simp add: send_def Cons.IH)
  qed
qed

lemma fold_discard:
  "fold discard ds s = s\<lparr>clients := filter (\<lambda>c. c \<notin> set ds) (clients s)\<rparr>"
proof (induction ds arbitrary: s)
  case Nil
  show ?case by simp
next
  case (Cons d ds)
  have "filter (\<lambda>c. c \<notin> set ds) (removeAll d (clients s)) =
        filter (\<lambda>c. c \<notin> set (d # ds)) (clients s)"
    by (induction "clients s") (auto simp: removeAll_filter_not_eq intro: filter_cong)
  moreover have "fold discard (d # ds) s = fold discard ds (discard d s)" by simp
  ultimately show ?case
    by (simp only: Cons.IH) (simp add: discard_def)
qed

lemma filter_not_gone:
  "filter (\<lambda>c. c \<in> set cs \<longrightarrow> c \<notin> gone) cs = filter (\<lambda>c. c \<notin> gone) cs"
  by (rule filter_cong) auto

lemma broadcast_message_eq:
  "broadcast_message gone m s =
     (if clients s = [] then s
      else s\<lparr>sent := \<lambda>c. sent s c @
                 replicate (count_list (filter (\<lambda>x. x \<notin> gone) (clients s)) c) m,
             clients := filter (\<lambda>c. c \<notin> gone) (clients s)\<rparr>)"
proof (cases "clients s = []")
  case True
  then show ?thesis by (simp add: broadcast_message_def)
next
  case False
  have "broadcast_message gone m s =
          fold discard (filter (\<lambda>x. x \<in> gone) (clients s))
            (s\<lparr>sent := \<lambda>c. sent s c @
                 replicate (count_list (filter (\<lambda>x. x \<notin> gone) (clients s)) c) m\<rparr>)"
    using False by (simp add: broadcast_message_def send_loop_eq)
  also have "\<dots> = s\<lparr>sent := \<lambda>c. sent s c @
                 replicate (count_list (filter (\<lambda>x. x \<notin> gone) (clients s)) c) m,
             clients := filter (\<lambda>c. c \<notin> gone) (clients s)\<rparr>"
    by (simp only: fold_discard) (simp add: filter_not_gone)
  finally show ?thesis using False by simp
qed

lemma broadcast_message_clients:
  "clients (broadcast_message gone m s) = filter (\<lambda>c. c \<notin> gone) (clients s)"
  by (simp add: broadcast_message_eq)

lemma broadcast_message_sent:
  "sent (broadcast_message gone m s) c =
     sent s c @ replicate (count_list (filter (\<lambda>x. x \<notin> gone) (clients s)) c) m"
  by (simp add: broadcast_message_eq)

lemma broadcast_message_frame [simp]:
  "audio_buffer (broadcast_message gone m s) = audio_buffer s"
  "transcriber (broadcast_message gone m s) = transcriber s"
  "full_transcription (broadcast_message gone m s) = full_transcription s"
  "transcription_queue (broadcast_message gone m s) = transcription_queue s"
  "currently_processing (broadcast_message gone m s) = currently_processing s"
  "queue_id_counter (broadcast_message gone m s) = queue_id_counter s"
  "task_data (broadcast_message gone m s) = task_data s"
  by (simp_all add: broadcast_message_eq)

lemma count_list_distinct:
  "distinct xs \<Longrightarrow> count_list xs c = (if c \<in> set xs then 1 else 0)"
  by (induction xs) auto

text \<open>
  The broadcast that nothing disturbs removes from the registered set the connections
  whose send fails, and no other; every registered connection whose send does not fail
  receives the event, once, and nothing is sent to any other connection.
\<close>

lemma broadcast_message_delivery:
  assumes "distinct (clients s)"
  shows "set (clients (broadcast_message gone m s)) = set (clients s) - gone \<and>
         distinct (clients (broadcast_message gone m s)) \<and>
         (\<forall>c. sent (broadcast_message gone m s) c =
                (if c \<in> set (clients s) \<and> c \<notin> gone then sent s c @ [m] else sent s c))"
proof -
  have "distinct (filter (\<lambda>x. x \<notin> gone) (clients s))" using assms by simp
  then show ?thesis
    using assms
    by (auto simp: broadcast_message_clients broadcast_message_sent count_list_distinct)
qed

lemma broadcast_message_delivery_example:
  "distinct (clients ((WebSocketServer_init default_buffer default_transcriber)
                        \<lparr>clients := [1, 2, 3]\<rparr>))
   \<and> set (clients (broadcast_message {2} Pong
              ((WebSocketServer_init default_buffer default_transcriber)
                 \<lparr>clients := [1, 2, 3]\<rparr>))) = {1, 3}
   \<and> sent (broadcast_message {2} Pong
              ((WebSocketServer_init default_buffer default_transcriber)
                 \<lparr>clients := [1, 2, 3]\<rparr>)) 1 = [Pong]
   \<and> sent (broadcast_message {2} Pong
              ((WebSocketServer_init default_buffer default_transcriber)
                 \<lparr>clients := [1, 2, 3]\<rparr>)) 2 = []
   \<and> sent (broadcast_message {2} Pong
              ((WebSocketServer_init default_buffer default_transcriber)
                 \<lparr>clients := [1, 2, 3]\<rparr>)) 3 = [Pong]"
proof -
  let ?s = "(WebSocketServer_init default_buffer default_transcriber)\<lparr>clients := [1, 2, 3]\<rparr>"
  have h: "distinct (clients ?s)" by simp
  have c: "clients ?s = [1, 2, 3]" "sent ?s = (\<lambda>c. [])"
    by (simp_all add: WebSocketServer_init_def)
  show ?thesis
    using h broadcast_message_delivery [OF h, of "{2}" Pong]
    by (simp only: c) auto
qed

subsection \<open>The broadcast among other coroutines\<close>

lemma send_clients: "send gone c m s = Some s' \<Longrightarrow> clients s' = clients s"
  by (auto simp: send_def split: if_splits)

text \<open>
  When the set does not change during the sends, the loop over the live set is the loop
  over the list of clients, and the broadcast is the undisturbed one.
\<close>

lemma send_loop_live_quiet:
  assumes "k \<le> length (clients s)"
  shows "send_loop_live gone m [] (length (clients s)) k s d =
           Inr (send_loop gone m (drop (length (clients s) - k) (clients s)) s d)"
  using assms
proof (induction k arbitrary: s d)
  case 0
  show ?case by simp
next
  case (Suc k)
  let ?n = "length (clients s)"
  let ?c = "clients s ! (?n - Suc k)"
  have pos: "?n - Suc k < ?n" using Suc.prems by simp
  have dr: "drop (?n - Suc k) (clients s) = ?c # drop (?n - k) (clients s)"
    using Cons_nth_drop_Suc [OF pos] Suc.prems by (simp add: Suc_diff_Suc)
  show ?case
  proof (cases "send gone ?c m s")
    case None
    have "k \<le> length (clients s)" using Suc.prems by simp
    from Suc.IH [OF this, of "d @ [?c]"] show ?thesis
      using None by (simp add: dr change_clients_def)
  next
    case (Some s')
    have cl: "clients s' = clients s" by (rule send_clients [OF Some])
    have "k \<le> length (clients s')" using Suc.prems cl by simp
    from Suc.IH [OF this, of d] show ?thesis
      using Some cl by (simp add: dr change_clients_def)
  qed
qed

lemma broadcast_message_live_quiet:
  "broadcast_message_live gone m [] s = Inr (broadcast_message gone m s)"
  using send_loop_live_quiet [of "length (clients s)" s gone m "[]"]
  by (simp add: broadcast_message_live_def broadcast_message_def split: prod.splits)

text \<open>
  C9. The claim: a send failure on one connection removes only that connection and never
  aborts the delivery to the others. On the code, three connections are registered and the
  peer of the first has closed. The send to it raises ConnectionClosed, which the loop
  catches; while that send is suspended the handler of the closed connection unregisters
  it. The set has changed size, the iterator raises RuntimeError, the exception leaves
  \<open>broadcast_message\<close>, and the two other connections, whose sends would not fail,
  receive nothing.
\<close>

theorem broadcast_aborted_when_peer_unregisters:
  "raised (broadcast_message_live {1}
             (TranscriptionCleared (ascii ''Transcription history cleared''))
             [Some (Leaves 1)] (server0\<lparr>clients := [1, 2, 3]\<rparr>))
     = Some (Exc RuntimeError (ascii ''Set changed size during iteration''))
   \<and> clients (state_left (broadcast_message_live {1}
             (TranscriptionCleared (ascii ''Transcription history cleared''))
             [Some (Leaves 1)] (server0\<lparr>clients := [1, 2, 3]\<rparr>))) = [2, 3]
   \<and> sent (state_left (broadcast_message_live {1}
             (TranscriptionCleared (ascii ''Transcription history cleared''))
             [Some (Leaves 1)] (server0\<lparr>clients := [1, 2, 3]\<rparr>))) 2 = []
   \<and> sent (state_left (broadcast_message_live {1}
             (TranscriptionCleared (ascii ''Transcription history cleared''))
             [Some (Leaves 1)] (server0\<lparr>clients := [1, 2, 3]\<rparr>))) 3 = []
   \<and> 2 \<notin> {1::nat} \<and> 3 \<notin> {1::nat}"
  by (simp add: broadcast_message_live_def change_clients_def unregister_client_def
      discard_def log_write_def send_def set_changed_def server0_def
      WebSocketServer_init_def)

text \<open>
  The same happens when a viewer connects during a broadcast to open connections: the
  first receives the event, the others do not.
\<close>

lemma broadcast_aborted_when_viewer_joins:
  "raised (broadcast_message_live {} Pong [Some (Joins 4)] (server0\<lparr>clients := [1, 2, 3]\<rparr>))
     = Some set_changed
   \<and> sent (state_left (broadcast_message_live {} Pong [Some (Joins 4)]
                          (server0\<lparr>clients := [1, 2, 3]\<rparr>))) 1 = [Pong]
   \<and> sent (state_left (broadcast_message_live {} Pong [Some (Joins 4)]
                          (server0\<lparr>clients := [1, 2, 3]\<rparr>))) 2 = []
   \<and> sent (state_left (broadcast_message_live {} Pong [Some (Joins 4)]
                          (server0\<lparr>clients := [1, 2, 3]\<rparr>))) 3 = []"
  by (simp add: broadcast_message_live_def change_clients_def register_client_def
      log_write_def send_def server0_def WebSocketServer_init_def)

section \<open>Properties of the transcription queue\<close>

lemma broadcast_message_logged [simp]:
  "logged (broadcast_message gone m s) = logged s"
  by (simp add: broadcast_message_eq)

lemma log_write_frame [simp]:
  "clients (log_write r s) = clients s"
  "audio_buffer (log_write r s) = audio_buffer s"
  "transcriber (log_write r s) = transcriber s"
  "full_transcription (log_write r s) = full_transcription s"
  "transcription_queue (log_write r s) = transcription_queue s"
  "currently_processing (log_write r s) = currently_processing s"
  "queue_id_counter (log_write r s) = queue_id_counter s"
  "task_data (log_write r s) = task_data s"
  "sent (log_write r s) = sent s"
  "logged (log_write r s) = logged s @ [r]"
  by (simp_all add: log_write_def)

lemma broadcast_queue_status_frame [simp]:
  "audio_buffer (broadcast_queue_status gone now s) = audio_buffer s"
  "transcriber (broadcast_queue_status gone now s) = transcriber s"
  "full_transcription (broadcast_queue_status gone now s) = full_transcription s"
  "transcription_queue (broadcast_queue_status gone now s) = transcription_queue s"
  "currently_processing (broadcast_queue_status gone now s) = currently_processing s"
  "queue_id_counter (broadcast_queue_status gone now s) = queue_id_counter s"
  "task_data (broadcast_queue_status gone now s) = task_data s"
  "logged (broadcast_queue_status gone now s) = logged s"
  by (simp_all add: broadcast_queue_status_def)

lemma broadcast_transcription_frame [simp]:
  "audio_buffer (broadcast_transcription gone now t ts q s) = audio_buffer s"
  "transcriber (broadcast_transcription gone now t ts q s) = transcriber s"
  "transcription_queue (broadcast_transcription gone now t ts q s) = transcription_queue s"
  "currently_processing (broadcast_transcription gone now t ts q s) = currently_processing s"
  "queue_id_counter (broadcast_transcription gone now t ts q s) = queue_id_counter s"
  "task_data (broadcast_transcription gone now t ts q s) = task_data s"
  by (simp_all add: broadcast_transcription_def finish_transcription_task_def Let_def
      split: option.splits)

lemma broadcast_transcription_log:
  "full_transcription (broadcast_transcription gone now t ts q s) =
     (if clients s \<noteq> [] \<and> strip t \<noteq> []
      then full_transcription s @
             [\<lparr>item_text = t, item_timestamp = (case ts of None \<Rightarrow> now | Some x \<Rightarrow> x)\<rparr>]
      else full_transcription s)"
  by (simp add: broadcast_transcription_def finish_transcription_task_def Let_def
      split: option.splits)

text \<open>What a step does to the log, the queue, the held task and the counter.\<close>

lemma step_cases:
  fixes e s
  defines "s' \<equiv> step e s"
  obtains
    (other) "transcription_queue s' = transcription_queue s" "task_data s' = task_data s"
      "queue_id_counter s' = queue_id_counter s"
      "full_transcription s' = full_transcription s \<or> (is_clear e \<and> full_transcription s' = [])"
  | (enqueue) t where "full_transcription s' = full_transcription s"
      "task_data s' = task_data s" "queue_id_counter s' = Suc (queue_id_counter s)"
      "task_queue_id t = Suc (queue_id_counter s)"
      "transcription_queue s' = transcription_queue s @ [t]"
  | (take) t where "full_transcription s' = full_transcription s"
      "queue_id_counter s' = queue_id_counter s" "task_data s = None"
      "transcription_queue s = t # transcription_queue s'" "task_data s' = Some t"
  | (finish) t where "queue_id_counter s' = queue_id_counter s"
      "transcription_queue s' = transcription_queue s" "task_data s = Some t"
      "task_data s' = None"
      "full_transcription s' = full_transcription s \<or>
       (\<exists>r. full_transcription s' = full_transcription s @ [r])"
proof (cases e)
  case (Connect c)
  then show ?thesis using other by (simp add: s'_def register_client_def)
next
  case (Disconnect c)
  then show ?thesis using other by (simp add: s'_def unregister_client_def discard_def)
next
  case (AudioFrame d now gone)
  obtain r buf where ab: "add_audio (audio_buffer s) d = (r, buf)"
    by (cases "add_audio (audio_buffer s) d")
  show ?thesis
  proof (cases r)
    case None
    have "s' = s\<lparr>audio_buffer := buf\<rparr>"
      using AudioFrame ab None by (simp add: s'_def handle_audio_data_def)
    then show ?thesis by (intro other) simp_all
  next
    case (Some chunk)
    let ?t = "\<lparr>task_audio_chunk = chunk, task_server_timestamp = now,
               task_queue_id = Suc (queue_id_counter s)\<rparr>"
    have "s' = broadcast_queue_status gone now
                 (log_write (TaskAdded (Suc (queue_id_counter s)))
                   ((log_write (ProcessingAudioChunk (length chunk)) (s\<lparr>audio_buffer := buf\<rparr>))
                      \<lparr>queue_id_counter := Suc (queue_id_counter s),
                       transcription_queue := transcription_queue s @ [?t]\<rparr>))"
      using AudioFrame ab Some
      by (simp add: s'_def handle_audio_data_def add_transcription_task_def Let_def)
    then have "full_transcription s' = full_transcription s"
      "task_data s' = task_data s" "queue_id_counter s' = Suc (queue_id_counter s)"
      "task_queue_id ?t = Suc (queue_id_counter s)"
      "transcription_queue s' = transcription_queue s @ [?t]"
      by simp_all
    then show ?thesis by (rule enqueue)
  qed
next
  case (GetFullTranscription c gone)
  then show ?thesis using other
    by (simp add: s'_def send_full_transcription_def send_def Let_def)
next
  case (ClearTranscription gone)
  then show ?thesis using other by (simp add: s'_def clear_transcription_def)
next
  case (WorkerTake now gone)
  show ?thesis
  proof (cases "task_data s")
    case (Some t)
    then have "s' = s" using WorkerTake by (simp add: s'_def queue_worker_take_def)
    then show ?thesis by (intro other) simp_all
  next
    case None
    show ?thesis
    proof (cases "transcription_queue s")
      case Nil
      then have "s' = s" using WorkerTake None by (simp add: s'_def queue_worker_take_def)
      then show ?thesis by (intro other) simp_all
    next
      case (Cons t q)
      then have "s' = broadcast_queue_status gone now
                   ((log_write (ProcessingTask (task_queue_id t))
                       (s\<lparr>transcription_queue := q, task_data := Some t\<rparr>))
                      \<lparr>currently_processing := True\<rparr>)"
        using WorkerTake None by (simp add: s'_def queue_worker_take_def Let_def)
      then have "full_transcription s' = full_transcription s"
        "queue_id_counter s' = queue_id_counter s" "task_data s = None"
        "transcription_queue s = t # transcription_queue s'" "task_data s' = Some t"
        using None Cons by simp_all
      then show ?thesis by (rule take)
    qed
  qed
next
  case (WorkerFinish outcome now gone1 gone2)
  show ?thesis
  proof (cases "task_data s")
    case None
    then have "s' = s" using WorkerFinish by (simp add: s'_def queue_worker_finish_def)
    then show ?thesis by (intro other) simp_all
  next
    case (Some t)
    then have "queue_id_counter s' = queue_id_counter s"
      "transcription_queue s' = transcription_queue s" "task_data s = Some t"
      "task_data s' = None"
      "full_transcription s' = full_transcription s \<or>
       (\<exists>r. full_transcription s' = full_transcription s @ [r])"
      using WorkerFinish
      by (auto simp: s'_def queue_worker_finish_def Let_def broadcast_transcription_log
          split: sum.splits prod.splits)
    then show ?thesis by (rule finish)
  qed
qed


text \<open>
  First in, first out: the tasks taken so far, followed by the queue, are the queue at the
  start followed by the tasks enqueued since.
\<close>

lemma fifo:
  "taken evs s @ transcription_queue (run evs s) = transcription_queue s @ enqueued evs s"
proof (induction evs arbitrary: s)
  case Nil
  show ?case by simp
next
  case (Cons e es)
  note IH = Cons.IH [of "step e s"]
  show ?case
  proof (cases rule: step_cases [of e s])
    case other
    then show ?thesis using IH by (simp add: taken_by_def enqueued_by_def split: option.splits)
  next
    case (enqueue t)
    then show ?thesis using IH by (simp add: taken_by_def enqueued_by_def split: option.splits)
  next
    case (take t)
    then show ?thesis using IH by (simp add: taken_by_def enqueued_by_def)
  next
    case (finish t)
    then show ?thesis using IH by (simp add: taken_by_def enqueued_by_def)
  qed
qed

text \<open>The identifiers given at enqueue time count up from the counter.\<close>

lemma enqueued_ids:
  "map task_queue_id (enqueued evs s) =
     [Suc (queue_id_counter s) ..< Suc (queue_id_counter s) + length (enqueued evs s)]"
proof (induction evs arbitrary: s)
  case Nil
  show ?case by simp
next
  case (Cons e es)
  note IH = Cons.IH [of "step e s"]
  show ?case
  proof (cases rule: step_cases [of e s])
    case other
    then show ?thesis using IH by (simp add: enqueued_by_def)
  next
    case (enqueue t)
    have "[Suc c ..< Suc c + Suc n] = Suc c # [Suc (Suc c) ..< Suc (Suc c) + n]" for c n
      by (simp add: upt_conv_Cons del: upt_Suc)
    moreover have "enqueued (e # es) s = t # enqueued es (step e s)"
      using enqueue by (simp add: enqueued_by_def)
    ultimately show ?thesis using IH enqueue by (simp del: upt_Suc)
  next
    case (take t)
    then show ?thesis using IH by (simp add: enqueued_by_def)
  next
    case (finish t)
    then show ?thesis using IH by (simp add: enqueued_by_def)
  qed
qed

lemma queue_ordered_step:
  assumes "queue_ordered s"
  shows "queue_ordered (step e s)"
proof (cases rule: step_cases [of e s])
  case other
  then show ?thesis using assms by (simp add: queue_ordered_def pending_ids_def)
next
  case (enqueue t)
  then show ?thesis using assms
    by (auto simp: queue_ordered_def pending_ids_def sorted_wrt_append list_all_iff
        split: option.splits)
next
  case (take t)
  then show ?thesis using assms by (simp add: queue_ordered_def pending_ids_def)
next
  case (finish t)
  then show ?thesis using assms by (simp add: queue_ordered_def pending_ids_def)
qed

text \<open>
  A task that is pending after a step, or gets a later identifier, was pending before the
  step or gets a later identifier.
\<close>

lemma future_step:
  assumes "j \<in> set (pending_ids (step e s)) \<or> queue_id_counter (step e s) < j"
  shows "j \<in> set (pending_ids s) \<or> queue_id_counter s < j"
proof (cases rule: step_cases [of e s])
  case other
  then show ?thesis using assms by (simp add: pending_ids_def)
next
  case (enqueue t)
  then show ?thesis using assms by (auto simp: pending_ids_def split: option.splits)
next
  case (take t)
  then show ?thesis using assms by (auto simp: pending_ids_def)
next
  case (finish t)
  then show ?thesis using assms by (auto simp: pending_ids_def)
qed

text \<open>A step appends nothing, or finishes the held task and appends one record.\<close>

lemma appended_by_cases:
  "appended_by s (step e s) = [] \<or>
   (\<exists>t r. task_data s = Some t \<and> task_data (step e s) = None \<and>
          transcription_queue (step e s) = transcription_queue s \<and>
          queue_id_counter (step e s) = queue_id_counter s \<and>
          full_transcription (step e s) = full_transcription s @ [r] \<and>
          appended_by s (step e s) = [(Some (task_queue_id t), r)])"
proof (cases rule: step_cases [of e s])
  case other
  then show ?thesis by (auto simp: appended_by_def)
next
  case (enqueue t)
  then show ?thesis by (simp add: appended_by_def)
next
  case (take t)
  then show ?thesis by (simp add: appended_by_def)
next
  case (finish t)
  then show ?thesis by (auto simp: appended_by_def)
qed

lemma appends_future:
  assumes "queue_ordered s" and "(i, r) \<in> set (log_appends evs s)"
  shows "\<exists>j. i = Some j \<and> (j \<in> set (pending_ids s) \<or> queue_id_counter s < j)"
  using assms
proof (induction evs arbitrary: s)
  case Nil
  then show ?case by simp
next
  case (Cons e es)
  from Cons.prems(2) consider
    (now) "(i, r) \<in> set (appended_by s (step e s))"
  | (later) "(i, r) \<in> set (log_appends es (step e s))"
    by auto
  then show ?case
  proof cases
    case now
    then show ?thesis using appended_by_cases [of s e]
      by (auto simp: pending_ids_def)
  next
    case later
    then obtain j where "i = Some j"
      and "j \<in> set (pending_ids (step e s)) \<or> queue_id_counter (step e s) < j"
      using Cons.IH [OF queue_ordered_step [OF Cons.prems(1)]] by blast
    then show ?thesis using future_step by blast
  qed
qed

lemma appends_sorted:
  assumes "queue_ordered s"
  shows "sorted_wrt (<) (map (\<lambda>x. the (fst x)) (log_appends evs s))"
  using assms
proof (induction evs arbitrary: s)
  case Nil
  show ?case by simp
next
  case (Cons e es)
  have ord': "queue_ordered (step e s)" by (rule queue_ordered_step [OF Cons.prems])
  have rest: "sorted_wrt (<) (map (\<lambda>x. the (fst x)) (log_appends es (step e s)))"
    by (rule Cons.IH [OF ord'])
  from appended_by_cases [of s e] show ?case
  proof
    assume "appended_by s (step e s) = []"
    then show ?thesis using rest by simp
  next
    assume "\<exists>t r. task_data s = Some t \<and> task_data (step e s) = None \<and>
          transcription_queue (step e s) = transcription_queue s \<and>
          queue_id_counter (step e s) = queue_id_counter s \<and>
          full_transcription (step e s) = full_transcription s @ [r] \<and>
          appended_by s (step e s) = [(Some (task_queue_id t), r)]"
    then obtain t r where t: "task_data s = Some t" "task_data (step e s) = None"
      "transcription_queue (step e s) = transcription_queue s"
      "queue_id_counter (step e s) = queue_id_counter s"
      "appended_by s (step e s) = [(Some (task_queue_id t), r)]"
      by blast
    have less: "task_queue_id t < the (fst x)" if xin: "x \<in> set (log_appends es (step e s))" for x
    proof -
      obtain i r' where x: "x = (i, r')" by (cases x)
      then obtain j where j: "i = Some j"
        "j \<in> set (pending_ids (step e s)) \<or> queue_id_counter (step e s) < j"
        using appends_future [OF ord'] xin by blast
      have "task_queue_id t < j"
        using j(2) Cons.prems t
        by (auto simp: queue_ordered_def pending_ids_def list_all_iff)
      then show ?thesis using x j(1) by simp
    qed
    show ?thesis using rest less by (simp add: t(5))
  qed
qed

lemma log_without_clear:
  assumes "list_all (\<lambda>e. \<not> is_clear e) evs"
  shows "full_transcription (run evs s) = full_transcription s @ map snd (log_appends evs s)"
  using assms
proof (induction evs arbitrary: s)
  case Nil
  show ?case by simp
next
  case (Cons e es)
  then have IH: "full_transcription (run es (step e s)) =
      full_transcription (step e s) @ map snd (log_appends es (step e s))"
    and e: "\<not> is_clear e" by simp_all
  have "full_transcription (step e s) =
          full_transcription s @ map snd (appended_by s (step e s))"
  proof (cases rule: step_cases [of e s])
    case other
    then show ?thesis using e by (simp add: appended_by_def)
  next
    case (enqueue t)
    then show ?thesis by (simp add: appended_by_def)
  next
    case (take t)
    then show ?thesis by (simp add: appended_by_def)
  next
    case (finish t)
    then show ?thesis by (auto simp: appended_by_def)
  qed
  then show ?case using IH by simp
qed

lemma queue_ordered_init: "queue_ordered (WebSocketServer_init buf cfg)"
  by (simp add: queue_ordered_def pending_ids_def WebSocketServer_init_def)

text \<open>
  C1. In every run of the server from its initial state: the worker holds at most one task
  (\<open>task_data\<close>), and the tasks it has taken, followed by the tasks still queued, are
  the tasks in the order they were enqueued; the tasks enqueued carry the identifiers
  1, 2, 3, ... in that order; every record appended to the log is appended while the
  worker holds a task, and the identifiers of those tasks, in the order of the appends,
  increase strictly; and, when the run clears no transcript, the log is the list of these
  records in that order. The order does not depend on the outcomes of the engine calls
  or on when they return.
\<close>

theorem transcript_order:
  "taken evs (WebSocketServer_init buf cfg)
     @ transcription_queue (run evs (WebSocketServer_init buf cfg))
     = enqueued evs (WebSocketServer_init buf cfg)
   \<and> map task_queue_id (enqueued evs (WebSocketServer_init buf cfg))
       = [1 ..< Suc (length (enqueued evs (WebSocketServer_init buf cfg)))]
   \<and> list_all (\<lambda>x. fst x \<noteq> None) (log_appends evs (WebSocketServer_init buf cfg))
   \<and> sorted_wrt (<) (map (\<lambda>x. the (fst x)) (log_appends evs (WebSocketServer_init buf cfg)))
   \<and> (list_all (\<lambda>e. \<not> is_clear e) evs \<longrightarrow>
        full_transcription (run evs (WebSocketServer_init buf cfg))
          = map snd (log_appends evs (WebSocketServer_init buf cfg)))"
proof -
  let ?s = "WebSocketServer_init buf cfg"
  have q: "transcription_queue ?s = []" "queue_id_counter ?s = 0" "full_transcription ?s = []"
    by (simp_all add: WebSocketServer_init_def)
  have "taken evs ?s @ transcription_queue (run evs ?s) = enqueued evs ?s"
    using fifo [of evs ?s] by (simp add: q)
  moreover have "map task_queue_id (enqueued evs ?s) = [1 ..< Suc (length (enqueued evs ?s))]"
    using enqueued_ids [of evs ?s] by (simp add: q)
  moreover have "list_all (\<lambda>x. fst x \<noteq> None) (log_appends evs ?s)"
    using appends_future [OF queue_ordered_init, of _ _ evs buf cfg]
    by (fastforce simp: list_all_iff)
  moreover have "sorted_wrt (<) (map (\<lambda>x. the (fst x)) (log_appends evs ?s))"
    by (rule appends_sorted [OF queue_ordered_init])
  moreover have "list_all (\<lambda>e. \<not> is_clear e) evs \<longrightarrow>
        full_transcription (run evs ?s) = map snd (log_appends evs ?s)"
    using log_without_clear [of evs ?s] by (simp add: q)
  ultimately show ?thesis by blast
qed

subsection \<open>The scenario, evaluated\<close>

lemma add_speech:
  "add_audio default_buffer speech = (None, default_buffer\<lparr>audio_chunk := speech\<rparr>)"
  by (simp add: add_audio_def Let_def forced_split_def accumulate_def speech_def
      default_buffer_def exact_level_replicate level_lt_def)

lemma add_silence:
  "add_audio (default_buffer\<lparr>audio_chunk := speech\<rparr>) silence =
     (Some (speech @ silence), default_buffer)"
proof -
  have "exact_level silence = Level 0" "length silence = 12288" "length speech = 4096"
    by (simp_all add: silence_def speech_def exact_level_replicate)
  then show ?thesis
    by (simp add: add_audio_def Let_def accumulate_def reset_def level_lt_def level_gt_def
        after_speech utterance_level default_buffer_def)
qed

lemma transcribe_hello:
  "transcribe default_transcriber (Inr [ascii ''hello '', ascii ''world'']) =
     (ascii ''hello world'', [])"
  by (simp add: transcribe_def filter_eval)

lemma transcribe_morning:
  "transcribe default_transcriber (Inr [ascii ''good morning'']) = (ascii ''good morning'', [])"
  by (simp add: transcribe_def filter_eval)

lemma transcribe_raises: "transcribe cfg (Inl e) = ([], [TranscriptionError e])"
  by (simp add: transcribe_def)

lemma strip_texts:
  "strip (ascii ''hello world'') \<noteq> []" "strip (ascii ''good morning'') \<noteq> []"
  "ascii ''hello world'' \<noteq> []" "ascii ''good morning'' \<noteq> []"
  by (simp_all add: strip_def ascii_def is_space_def)

lemmas server_eval = server0_def WebSocketServer_init_def register_client_def
  unregister_client_def discard_def handle_audio_data_def add_transcription_task_def
  broadcast_queue_status_def queue_status_message_def broadcast_message_eq
  queue_worker_take_def queue_worker_finish_def broadcast_transcription_def
  finish_transcription_task_def log_write_def clear_transcription_def Let_def
  add_speech add_silence transcribe_hello transcribe_morning strip_texts transcribe_raises


lemma scenario_no_clear: "list_all (\<lambda>e. \<not> is_clear e) scenario"
  by (simp add: scenario_def second_taken_def first_taken_def)

lemma scenario_log_appends:
  "log_appends scenario server0 =
     [(Some 1, \<lparr>item_text = ascii ''hello world'', item_timestamp = 11\<rparr>),
      (Some 3, \<lparr>item_text = ascii ''good morning'', item_timestamp = 16\<rparr>)]"
  by (simp add: scenario_def second_taken_def first_taken_def server_eval appended_by_def
      numeral_3_eq_3)

lemma scenario_taken: "map task_queue_id (taken scenario server0) = [1, 2, 3]"
  by (simp add: scenario_def second_taken_def first_taken_def server_eval taken_by_def
      numeral_3_eq_3 numeral_2_eq_2)

theorem transcript_order_witness:
  "list_all (\<lambda>e. \<not> is_clear e) scenario
   \<and> taken scenario server0 @ transcription_queue (run scenario server0)
       = enqueued scenario server0
   \<and> map task_queue_id (taken scenario server0) = [1, 2, 3]
   \<and> map fst (log_appends scenario server0) = [Some 1, Some 3]
   \<and> sorted_wrt (<) (map (\<lambda>x. the (fst x)) (log_appends scenario server0))
   \<and> full_transcription (run scenario server0) = map snd (log_appends scenario server0)
   \<and> map item_text (map snd (log_appends scenario server0))
       = [ascii ''hello world'', ascii ''good morning'']"
  using transcript_order [of scenario default_buffer default_transcriber]
    scenario_no_clear scenario_taken
  by (simp add: server0_def [symmetric] scenario_log_appends)

section \<open>Properties of the worker\<close>

text \<open>
  A text the filter accepts is not blank, and trimming a trimmed text changes nothing: the
  worker's test \<open>text and text.strip()\<close> holds for every text \<open>transcribe\<close> returns
  from an accepted result.
\<close>

lemma valid_not_blank:
  assumes "is_valid_transcription cfg t = Inr True"
  shows "strip t \<noteq> []"
proof
  assume e: "strip t = []"
  have "re_match_anchored (Star (Atom is_space)) []"
    by (simp add: re_match_anchored_def)
  then have "list_ex (\<lambda>p. re_match_anchored p []) noise_patterns"
    by (simp add: noise_patterns_def)
  then have "is_valid_transcription cfg t = Inr False"
    using e by (simp add: is_valid_transcription_def Let_def split_def)
  then show False using assms by simp
qed

lemma dropWhile_strip: "dropWhile is_space (strip t) = strip t"
proof (cases "strip t")
  case Nil
  then show ?thesis by simp
next
  case (Cons a as)
  let ?u = "dropWhile is_space t"
  have v: "strip t = rev (dropWhile is_space (rev ?u))" by (simp add: strip_def)
  have "rev (takeWhile is_space (rev ?u) @ dropWhile is_space (rev ?u)) =
        rev (dropWhile is_space (rev ?u)) @ rev (takeWhile is_space (rev ?u))"
    by (rule rev_append)
  moreover have "takeWhile is_space (rev ?u) @ dropWhile is_space (rev ?u) = rev ?u"
    by (rule takeWhile_dropWhile_id)
  ultimately have "rev (rev ?u) =
        rev (dropWhile is_space (rev ?u)) @ rev (takeWhile is_space (rev ?u))"
    by (simp only:)
  then have u: "?u = strip t @ rev (takeWhile is_space (rev ?u))"
    by (simp only: rev_rev_ident v)
  then obtain w where w: "dropWhile is_space t = a # w"
    using Cons by (metis append_Cons)
  have "\<not> is_space a" using hd_dropWhile [of is_space t] w by simp
  then show ?thesis using Cons by simp
qed

lemma strip_strip: "strip (strip t) = strip t"
proof -
  have "strip (strip t) = rev (dropWhile is_space (rev (strip t)))"
    by (simp add: strip_def [of "strip t"] dropWhile_strip)
  also have "rev (strip t) = dropWhile is_space (rev (dropWhile is_space t))"
    by (simp add: strip_def)
  also have "rev (dropWhile is_space (dropWhile is_space (rev (dropWhile is_space t)))) = strip t"
    by (simp add: strip_def dropWhile_idem)
  finally show ?thesis .
qed

lemma broadcast_message_sent_distinct:
  assumes "distinct (clients s)"
  shows "sent (broadcast_message gone m s) c =
           sent s c @ (if c \<in> set (clients s) \<and> c \<notin> gone then [m] else [])"
proof -
  have "distinct (filter (\<lambda>x. x \<notin> gone) (clients s))" using assms by simp
  then show ?thesis by (simp add: broadcast_message_sent count_list_distinct)
qed

lemma transcribe_valid:
  assumes "is_valid_transcription cfg (strip (concat segs)) = Inr True"
  shows "transcribe cfg (Inr segs) = (strip (concat segs), [])"
  using assms by (simp add: transcribe_def)

text \<open>
  C2, as the code has it. When the worker holds a task, at least one client is registered
  and the model returns segments whose trimmed text the validity filter accepts, the
  second step of the worker appends the record of that text and of the task's
  \<open>server_timestamp\<close> to the transcript log, and every registered client whose send does
  not fail receives a \<open>transcription\<close> event with that text, the \<open>server_timestamp\<close>
  given at enqueue time and the task's \<open>queue_id\<close>, followed by the queue status.
\<close>

theorem accepted_result_recorded:
  assumes held: "task_data s = Some t"
    and viewers: "clients s \<noteq> []"
    and dist: "distinct (clients s)"
    and valid: "is_valid_transcription (transcriber s) (strip (concat segs)) = Inr True"
  shows "full_transcription (queue_worker_finish gone1 gone2 now (Inr (Inr segs)) s) =
           full_transcription s @
             [\<lparr>item_text = strip (concat segs), item_timestamp = task_server_timestamp t\<rparr>]
         \<and> (\<forall>c. sent (queue_worker_finish gone1 gone2 now (Inr (Inr segs)) s) c =
                sent s c @
                (if c \<in> set (clients s) \<and> c \<notin> gone1
                 then Transcription (strip (concat segs)) (task_server_timestamp t) now
                        (Some (task_queue_id t))
                      # (if c \<in> gone2 then []
                         else [QueueStatus (int (length (transcription_queue s)))
                                 (int (length (transcription_queue s))) False now])
                 else []))"
proof -
  let ?txt = "strip (concat segs)"
  let ?m = "Transcription ?txt (task_server_timestamp t) now (Some (task_queue_id t))"
  let ?s1 = "(log_write (TranscriptionResult ?txt) s)
               \<lparr>full_transcription := full_transcription s @
                  [\<lparr>item_text = ?txt, item_timestamp = task_server_timestamp t\<rparr>]\<rparr>"
  let ?s2 = "(log_write (CompletedTask (task_queue_id t)) (broadcast_message gone1 ?m ?s1))
               \<lparr>currently_processing := False\<rparr>"
  have nb: "strip ?txt \<noteq> []" "?txt \<noteq> []"
    using valid_not_blank [OF valid] by (auto simp: strip_strip)
  have fin: "queue_worker_finish gone1 gone2 now (Inr (Inr segs)) s =
               (broadcast_queue_status gone2 now ?s2)\<lparr>task_data := None\<rparr>"
    using held viewers nb
    by (simp add: queue_worker_finish_def transcribe_valid [OF valid] Let_def
        broadcast_transcription_def finish_transcription_task_def)
  have d1: "distinct (clients ?s1)" using dist by simp
  have d2: "distinct (clients ?s2)" using dist by (simp add: broadcast_message_clients)
  have sent2: "sent ?s2 c = sent s c @ (if c \<in> set (clients s) \<and> c \<notin> gone1 then [?m] else [])" for c
    using broadcast_message_sent_distinct [OF d1, of gone1 ?m c] by simp
  have sent3: "sent (broadcast_queue_status gone2 now ?s2) c =
          sent ?s2 c @ (if c \<in> set (clients ?s2) \<and> c \<notin> gone2
                        then [queue_status_message now ?s2] else [])" for c
    unfolding broadcast_queue_status_def by (rule broadcast_message_sent_distinct [OF d2])
  have cl2: "set (clients ?s2) = set (clients s) - gone1"
    by (auto simp: broadcast_message_clients)
  have q: "queue_status_message now ?s2 =
             QueueStatus (int (length (transcription_queue s)))
               (int (length (transcription_queue s))) False now"
    by (simp add: queue_status_message_def Let_def)
  have sfin: "sent (queue_worker_finish gone1 gone2 now (Inr (Inr segs)) s) c =
          sent (broadcast_queue_status gone2 now ?s2) c" for c
    by (simp add: fin)
  have "sent (queue_worker_finish gone1 gone2 now (Inr (Inr segs)) s) c =
          (sent s c @ (if c \<in> set (clients s) \<and> c \<notin> gone1 then [?m] else [])) @
          (if c \<in> set (clients s) - gone1 \<and> c \<notin> gone2
           then [QueueStatus (int (length (transcription_queue s)))
                   (int (length (transcription_queue s))) False now]
           else [])" for c
    by (simp only: sfin sent3 sent2 cl2 q)
  moreover have "full_transcription (queue_worker_finish gone1 gone2 now (Inr (Inr segs)) s) =
           full_transcription s @
             [\<lparr>item_text = ?txt, item_timestamp = task_server_timestamp t\<rparr>]"
    by (simp add: fin)
  ultimately show ?thesis by simp
qed


lemma first_taken_state:
  "task_data (run first_taken server0) =
     Some \<lparr>task_audio_chunk = speech @ silence, task_server_timestamp = 11, task_queue_id = 1\<rparr>"
  "clients (run first_taken server0) = [1, 2]"
  "transcriber (run first_taken server0) = default_transcriber"
  "full_transcription (run first_taken server0) = []"
  "length (transcription_queue (run first_taken server0)) = 2"
  by (simp_all add: first_taken_def server_eval)

lemma hello_valid:
  "is_valid_transcription default_transcriber (ascii ''hello world'') = Inr True"
  "strip (ascii ''hello '' @ ascii ''world'') = ascii ''hello world''"
  "strip (concat [ascii ''hello '', ascii ''world'']) = ascii ''hello world''"
  by (simp_all add: filter_eval)

theorem accepted_result_recorded_witness:
  "task_data (run first_taken server0) =
     Some \<lparr>task_audio_chunk = speech @ silence, task_server_timestamp = 11, task_queue_id = 1\<rparr>
   \<and> clients (run first_taken server0) \<noteq> []
   \<and> distinct (clients (run first_taken server0))
   \<and> is_valid_transcription (transcriber (run first_taken server0))
        (strip (concat [ascii ''hello '', ascii ''world''])) = Inr True
   \<and> full_transcription
        (queue_worker_finish {} {2} 17 (Inr (Inr [ascii ''hello '', ascii ''world'']))
           (run first_taken server0))
       = [\<lparr>item_text = ascii ''hello world'', item_timestamp = 11\<rparr>]
   \<and> sent (queue_worker_finish {} {2} 17 (Inr (Inr [ascii ''hello '', ascii ''world'']))
              (run first_taken server0)) 1
       = sent (run first_taken server0) 1 @
         [Transcription (ascii ''hello world'') 11 17 (Some 1), QueueStatus 2 2 False 17]
   \<and> sent (queue_worker_finish {} {2} 17 (Inr (Inr [ascii ''hello '', ascii ''world'']))
              (run first_taken server0)) 2
       = sent (run first_taken server0) 2 @
         [Transcription (ascii ''hello world'') 11 17 (Some 1)]"
proof -
  let ?s = "run first_taken server0"
  let ?t = "\<lparr>task_audio_chunk = speech @ silence, task_server_timestamp = 11,
             task_queue_id = 1\<rparr>"
  have h1: "task_data ?s = Some ?t" by (rule first_taken_state)
  have h2: "clients ?s \<noteq> []" by (simp add: first_taken_state)
  have h3: "distinct (clients ?s)" by (simp add: first_taken_state)
  have h4: "is_valid_transcription (transcriber ?s)
              (strip (concat [ascii ''hello '', ascii ''world''])) = Inr True"
    by (simp only: first_taken_state hello_valid)
  show ?thesis
    using h1 h2 h3 h4 accepted_result_recorded [OF h1 h2 h3 h4, of "{}" "{2}" 17]
    by (simp add: first_taken_state hello_valid)
qed

text \<open>
  C2, as the claim states it, fails when no client is registered:
  \<open>broadcast_transcription\<close> appends to the log under \<open>if self.clients and
  text.strip()\<close>. The only viewer leaves while the engine works; the accepted text is
  written to the program log, and neither recorded in the transcript log nor broadcast.
\<close>

theorem result_lost_without_viewers:
  "is_valid_transcription default_transcriber
     (strip (concat [ascii ''hello '', ascii ''world''])) = Inr True
   \<and> full_transcription (run viewer_leaves server0) = []
   \<and> sent (run viewer_leaves server0) 1 = [QueueStatus 1 1 False 11, QueueStatus 1 0 True 12]
   \<and> TranscriptionResult (ascii ''hello world'') \<in> set (logged (run viewer_leaves server0))"
  by (simp add: hello_valid viewer_leaves_def server_eval)



lemma second_taken_state:
  "task_data (run second_taken server0) =
     Some \<lparr>task_audio_chunk = speech @ silence, task_server_timestamp = 14, task_queue_id = 2\<rparr>"
  "clients (run second_taken server0) = [1, 2]"
  "full_transcription (run second_taken server0) =
     [\<lparr>item_text = ascii ''hello world'', item_timestamp = 11\<rparr>]"
  "transcription_queue (run second_taken server0) =
     [\<lparr>task_audio_chunk = speech @ silence, task_server_timestamp = 16, task_queue_id = 3\<rparr>]"
  by (simp_all add: second_taken_def first_taken_def server_eval numeral_3_eq_3 numeral_2_eq_2)


section \<open>Properties of the queue status\<close>

text \<open>
  Every event a step sends is the status built by \<open>queue_status_message\<close> or is not a
  \<open>queue_status\<close> event, so the events sent stay consistent along a run.
\<close>

lemma queue_status_message_consistent:
  "queue_status_consistent (queue_status_message now s)"
  by (simp add: queue_status_message_def Let_def)

lemma consistent_broadcast:
  assumes "\<forall>c. list_all queue_status_consistent (sent s c)"
    and "queue_status_consistent m"
  shows "\<forall>c. list_all queue_status_consistent (sent (broadcast_message gone m s) c)"
  using assms by (auto simp: broadcast_message_sent list_all_iff)

lemma consistent_frame:
  assumes "\<forall>c. list_all queue_status_consistent (sent s c)" and "sent s' = sent s"
  shows "\<forall>c. list_all queue_status_consistent (sent s' c)"
  using assms by simp

lemma consistent_step:
  assumes inv: "\<forall>c. list_all queue_status_consistent (sent s c)"
  shows "\<forall>c. list_all queue_status_consistent (sent (step e s) c)"
proof (cases e)
  case (Connect c)
  then show ?thesis using inv by (simp add: register_client_def)
next
  case (Disconnect c)
  then show ?thesis using inv by (simp add: unregister_client_def discard_def)
next
  case (AudioFrame d now gone)
  obtain r buf where ab: "add_audio (audio_buffer s) d = (r, buf)"
    by (cases "add_audio (audio_buffer s) d")
  show ?thesis
  proof (cases r)
    case None
    then show ?thesis using inv AudioFrame ab by (simp add: handle_audio_data_def)
  next
    case (Some chunk)
    then show ?thesis
      using AudioFrame ab
      by (simp add: handle_audio_data_def Let_def broadcast_queue_status_def
          add_transcription_task_def consistent_broadcast inv queue_status_message_consistent)
  qed
next
  case (GetFullTranscription c gone)
  then show ?thesis using inv
    by (simp add: send_full_transcription_def send_def Let_def)
next
  case (ClearTranscription gone)
  then show ?thesis
    by (simp add: clear_transcription_def consistent_broadcast inv)
next
  case (WorkerTake now gone)
  then show ?thesis
    by (simp add: queue_worker_take_def Let_def broadcast_queue_status_def
        consistent_broadcast inv queue_status_message_consistent
        split: option.splits list.splits)
next
  case (WorkerFinish outcome now gone1 gone2)
  have bt: "\<forall>c. list_all queue_status_consistent
              (sent (broadcast_transcription g n t ts q s0) c)"
    if "\<forall>c. list_all queue_status_consistent (sent s0 c)" for g n t ts q s0
    using that
    by (simp add: broadcast_transcription_def finish_transcription_task_def Let_def
        consistent_broadcast split: option.splits)
  show ?thesis
    using WorkerFinish
    by (simp add: queue_worker_finish_def Let_def broadcast_queue_status_def
        consistent_broadcast bt inv queue_status_message_consistent
        split: option.splits sum.splits prod.splits)
qed

lemma consistent_run:
  assumes "\<forall>c. list_all queue_status_consistent (sent s c)"
  shows "\<forall>c. list_all queue_status_consistent (sent (run evs s) c)"
  using assms
proof (induction evs arbitrary: s)
  case Nil
  then show ?case by simp
next
  case (Cons e es)
  show ?case using Cons.IH [OF consistent_step [OF Cons.prems]] by simp
qed

text \<open>
  C10. The \<open>queue_status\<close> event the server builds carries the size of the queue as
  \<open>pending_count\<close>, a non-negative integer, and \<open>processing_count\<close> is that count
  plus one when \<open>currently_processing\<close> is true and that count when it is false; and
  in every run of the server from its initial state, the counts of every
  \<open>queue_status\<close> event sent to any connection agree in this way.
\<close>

theorem queue_status_counts:
  "queue_status_message now s =
     QueueStatus (int (length (transcription_queue s)) + (if currently_processing s then 1 else 0))
       (int (length (transcription_queue s))) (currently_processing s) now
   \<and> 0 \<le> int (length (transcription_queue s))
   \<and> (\<forall>c. list_all queue_status_consistent (sent (run evs (WebSocketServer_init buf cfg)) c))"
proof -
  have "\<forall>c. list_all queue_status_consistent (sent (WebSocketServer_init buf cfg) c)"
    by (simp add: WebSocketServer_init_def)
  then show ?thesis
    using consistent_run by (simp add: queue_status_message_def Let_def)
qed

lemma scenario_sent:
  "sent (run scenario server0) 2 =
     [QueueStatus 1 1 False 11, QueueStatus 1 0 True 12, QueueStatus 2 1 True 14,
      QueueStatus 3 2 True 16, Transcription (ascii ''hello world'') 11 17 (Some 1),
      QueueStatus 2 2 False 17, QueueStatus 2 1 True 18, QueueStatus 1 1 False 19,
      QueueStatus 1 0 True 20]"
  by (simp add: scenario_def second_taken_def first_taken_def server_eval)

theorem queue_status_counts_witness:
  "queue_status_message 18 (run second_taken server0) = QueueStatus 2 1 True 18
   \<and> sent (run scenario server0) 2 =
     [QueueStatus 1 1 False 11, QueueStatus 1 0 True 12, QueueStatus 2 1 True 14,
      QueueStatus 3 2 True 16, Transcription (ascii ''hello world'') 11 17 (Some 1),
      QueueStatus 2 2 False 17, QueueStatus 2 1 True 18, QueueStatus 1 1 False 19,
      QueueStatus 1 0 True 20]
   \<and> list_all queue_status_consistent (sent (run scenario server0) 2)"
proof -
  have cp: "currently_processing (run second_taken server0)"
    by (simp add: second_taken_def first_taken_def server_eval)
  show ?thesis
    using queue_status_counts [of 18 "run second_taken server0" scenario default_buffer
        default_transcriber] cp
    by (simp add: server0_def [symmetric] second_taken_state scenario_sent)
qed

section \<open>Properties of the summarization handler\<close>

lemma ws_send_open [simp]: "ws_send None m out = Inr (out @ [m])"
  by (simp add: ws_send_def)

lemma gemini_failure_text:
  assumes "\<forall>p. generate p = Inl e"
  shows "GeminiSummarizer_summarize (Some generate) default_prompt t custom_prompt =
           ascii ''Summarization error: '' @ str_exc e"
  using assms by (simp add: GeminiSummarizer_summarize_def Let_def)

text \<open>
  C5, as the code has it. While the requesting connection is open, no exception leaves
  \<open>handle_summarize_request\<close>, whatever the collaborators do, and the last event it
  sends is a \<open>summary_result\<close>. When the call of the summarizer raises, that event has
  success false and the message of the exception. When the summary is made and the export
  fails, by raising or by returning a failure, the failure is the \<open>notion_result\<close> of a
  \<open>summary_result\<close> whose own success is true. \<open>NotionClient.save_summary\<close> turns an
  exception of its body into a result with success false and a message, and
  \<open>GeminiSummarizer.summarize\<close> turns a failure of the generative model into the text
  \<open>Summarization error: ...\<close>, which it returns.
\<close>

theorem summarize_failures_contained:
  "snd (handle_summarize_request summarize available save None full_log custom_prompt client_text)
     = None
   \<and> (\<exists>msgs r. fst (handle_summarize_request summarize available save None full_log
                      custom_prompt client_text) = msgs @ [r] \<and> is_summary_result r)
   \<and> (\<forall>e. strip (summary_input full_log client_text) \<noteq> [] \<and>
           summarize (summary_input full_log client_text) custom_prompt = Inl e \<longrightarrow>
         handle_summarize_request summarize available save None full_log custom_prompt
           client_text =
         ([SummaryProcessing (ascii ''AI summarization in progress...''),
           SummaryResult False None None (Some (str_exc e))], None))
   \<and> (\<forall>summary e. strip (summary_input full_log client_text) \<noteq> [] \<and>
           summarize (summary_input full_log client_text) custom_prompt = Inr summary \<and>
           available \<and> save summary = Inl e \<longrightarrow>
         handle_summarize_request summarize available save None full_log custom_prompt
           client_text =
         ([SummaryProcessing (ascii ''AI summarization in progress...''),
           NotionProcessing (ascii ''Saving to Notion...''),
           SummaryResult True (Some summary) (Some (NotionFailed (str_exc e))) None], None))
   \<and> (\<forall>summary r. strip (summary_input full_log client_text) \<noteq> [] \<and>
           summarize (summary_input full_log client_text) custom_prompt = Inr summary \<and>
           available \<and> save summary = Inr r \<longrightarrow>
         handle_summarize_request summarize available save None full_log custom_prompt
           client_text =
         ([SummaryProcessing (ascii ''AI summarization in progress...''),
           NotionProcessing (ascii ''Saving to Notion...''),
           SummaryResult True (Some summary) (Some r) None], None))
   \<and> (\<forall>create e. create summary_text = Inl e \<longrightarrow>
         NotionClient_save_summary True create summary_text = NotionFailed (str_exc e))
   \<and> (\<forall>generate e. (\<forall>p. generate p = Inl e) \<longrightarrow>
         GeminiSummarizer_summarize (Some generate) default_prompt t prompt =
           ascii ''Summarization error: '' @ str_exc e)"
proof -
  let ?h = "handle_summarize_request summarize available save None full_log custom_prompt
              client_text"
  have a: "snd ?h = None"
    by (simp add: handle_summarize_request_def summarize_try_def notion_step_def Let_def
        split: sum.splits prod.splits option.splits)
  have b: "\<exists>msgs r. fst ?h = msgs @ [r] \<and> is_summary_result r"
    by (auto simp: handle_summarize_request_def summarize_try_def notion_step_def Let_def
        split: sum.splits prod.splits option.splits)
  have c: "?h = ([SummaryProcessing (ascii ''AI summarization in progress...''),
           SummaryResult False None None (Some (str_exc e))], None)"
    if "strip (summary_input full_log client_text) \<noteq> []"
      "summarize (summary_input full_log client_text) custom_prompt = Inl e" for e
    using that by (simp add: handle_summarize_request_def summarize_try_def Let_def)
  have d: "?h = ([SummaryProcessing (ascii ''AI summarization in progress...''),
           NotionProcessing (ascii ''Saving to Notion...''),
           SummaryResult True (Some summary) (Some (NotionFailed (str_exc e))) None], None)"
    if "strip (summary_input full_log client_text) \<noteq> []"
      "summarize (summary_input full_log client_text) custom_prompt = Inr summary"
      "available" "save summary = Inl e" for summary e
    using that
    by (simp add: handle_summarize_request_def summarize_try_def notion_step_def Let_def)
  have f: "?h = ([SummaryProcessing (ascii ''AI summarization in progress...''),
           NotionProcessing (ascii ''Saving to Notion...''),
           SummaryResult True (Some summary) (Some r) None], None)"
    if "strip (summary_input full_log client_text) \<noteq> []"
      "summarize (summary_input full_log client_text) custom_prompt = Inr summary"
      "available" "save summary = Inr r" for summary r
    using that
    by (simp add: handle_summarize_request_def summarize_try_def notion_step_def Let_def)
  have g: "NotionClient_save_summary True create summary_text = NotionFailed (str_exc e)"
    if "create summary_text = Inl e" for create e
    using that by (simp add: NotionClient_save_summary_def)
  show ?thesis
    using a b c d f g gemini_failure_text by blast
qed

lemma hello_input: "strip (summary_input [] (ascii ''hello world'')) \<noteq> []"
  by (simp add: summary_input_def ascii_def strip_def is_space_def)

theorem summarize_failures_contained_witness:
  "strip (summary_input [] (ascii ''hello world'')) \<noteq> []
   \<and> handle_summarize_request
         (\<lambda>t p. Inl (Exc OtherException (ascii ''service unavailable'')))
         False (\<lambda>summary. Inl (Exc OtherException [])) None [] [] (ascii ''hello world'')
       = ([SummaryProcessing (ascii ''AI summarization in progress...''),
           SummaryResult False None None (Some (ascii ''service unavailable''))], None)
   \<and> handle_summarize_request
         (\<lambda>t p. Inr (ascii ''A summary.''))
         True
         (\<lambda>summary. Inr (NotionClient_save_summary True
                            (\<lambda>x. Inl (Exc OtherException (ascii ''unauthorized''))) summary))
         None [] [] (ascii ''hello world'')
       = ([SummaryProcessing (ascii ''AI summarization in progress...''),
           NotionProcessing (ascii ''Saving to Notion...''),
           SummaryResult True (Some (ascii ''A summary.''))
             (Some (NotionFailed (ascii ''unauthorized''))) None], None)"
proof -
  have n: "NotionClient_save_summary True
             (\<lambda>x. Inl (Exc OtherException (ascii ''unauthorized''))) (ascii ''A summary.'')
           = NotionFailed (ascii ''unauthorized'')"
    by (simp add: NotionClient_save_summary_def)
  show ?thesis
    using hello_input n
      summarize_failures_contained
        [where summarize = "\<lambda>t p. Inl (Exc OtherException (ascii ''service unavailable''))"
           and available = False and save = "\<lambda>summary. Inl (Exc OtherException [])"
           and full_log = "[]" and custom_prompt = "[]"
           and client_text = "ascii ''hello world''"]
      summarize_failures_contained
        [where summarize = "\<lambda>t p. Inr (ascii ''A summary.'')"
           and available = True
           and save = "\<lambda>summary. Inr (NotionClient_save_summary True
                            (\<lambda>x. Inl (Exc OtherException (ascii ''unauthorized''))) summary)"
           and full_log = "[]" and custom_prompt = "[]"
           and client_text = "ascii ''hello world''"]
    by (simp add: NotionClient_save_summary_def)
qed


text \<open>
  C5, as the claim states it, fails: the generative model raises,
  \<open>GeminiSummarizer.summarize\<close> returns the error text, and the handler sends it as the
  summary of a \<open>summary_result\<close> with success true.
\<close>

theorem failed_summary_sent_as_success:
  "handle_summarize_request
     (\<lambda>t p. Inr (GeminiSummarizer_summarize
                   (Some (\<lambda>p. Inl (Exc OtherException (ascii ''quota exceeded''))))
                   (ascii ''Summarize.'') t p))
     False (\<lambda>summary. Inr (NotionClient_save_summary False (\<lambda>x. Inr ([], [])) summary))
     None [] [] (ascii ''hello world'')
   = ([SummaryProcessing (ascii ''AI summarization in progress...''),
       SummaryResult True (Some (ascii ''Summarization error: quota exceeded'')) None None],
      None)"
  by (simp add: handle_summarize_request_def summarize_try_def notion_step_def Let_def
      summary_input_def GeminiSummarizer_summarize_def ascii_def strip_def is_space_def)

end
